theory Spec2Isabelle
  imports Main "HOL-Library.Word"
begin

unbundle bit_operations_syntax

section \<open>The USB transport layer of the oscilloscope (scopedevice.cpp)\<close>

subsection \<open>Values of the libusb interface\<close>

text \<open>
  A C \<open>int\<close> is modelled as \<open>int\<close>, an \<open>unsigned\<close> as \<open>32 word\<close>, \<open>uint8_t\<close>,
  \<open>uint16_t\<close> and the 64-bit \<open>UniqueUSBid\<close> as words of their width. The error codes
  and the class code are the ones of libusb's public header.
\<close>

definition LIBUSB_SUCCESS :: int where "LIBUSB_SUCCESS = 0"
definition LIBUSB_ERROR_NO_DEVICE :: int where "LIBUSB_ERROR_NO_DEVICE = - 4"
definition LIBUSB_ERROR_NOT_FOUND :: int where "LIBUSB_ERROR_NOT_FOUND = - 5"
definition LIBUSB_ERROR_TIMEOUT :: int where "LIBUSB_ERROR_TIMEOUT = - 7"
definition LIBUSB_ERROR_OVERFLOW :: int where "LIBUSB_ERROR_OVERFLOW = - 8"
definition LIBUSB_CLASS_VENDOR_SPEC :: "8 word" where "LIBUSB_CLASS_VENDOR_SPEC = 0xFF"

record libusb_device_descriptor =
  idVendor :: "16 word"
  idProduct :: "16 word"
  bcdDevice :: "16 word"
  iSerialNumber :: "8 word"

record libusb_endpoint_descriptor =
  bEndpointAddress :: "8 word"
  wMaxPacketSize :: "16 word"

record libusb_interface_descriptor =
  bInterfaceNumber :: "8 word"
  bInterfaceClass :: "8 word"
  bInterfaceSubClass :: "8 word"
  bInterfaceProtocol :: "8 word"
  endpoint :: "libusb_endpoint_descriptor list"

text \<open>
  \<open>bNumEndpoints\<close>, \<open>num_altsetting\<close> and \<open>bNumInterfaces\<close> are the lengths of the
  arrays they count.
\<close>

definition bNumEndpoints :: "libusb_interface_descriptor \<Rightarrow> nat" where
  "bNumEndpoints d = length (endpoint d)"

record libusb_interface =
  altsetting :: "libusb_interface_descriptor list"

definition num_altsetting :: "libusb_interface \<Rightarrow> nat" where
  "num_altsetting i = length (altsetting i)"

record libusb_config_descriptor =
  interface :: "libusb_interface list"

definition bNumInterfaces :: "libusb_config_descriptor \<Rightarrow> nat" where
  "bNumInterfaces c = length (interface c)"

text \<open>
  What libusb knows of a \<open>libusb_device\<close>: its position on the bus, its descriptor and
  its first configuration (absent when libusb cannot read it).
\<close>

record libusb_device =
  bus_number :: "8 word"
  port_numbers :: "8 word list"
  device_address :: "8 word"
  device_descriptor :: libusb_device_descriptor
  config_descriptor :: "libusb_config_descriptor option"

text \<open>
  \<open>libusb_get_port_numbers\<close> fills the array with the port path and returns its length,
  or returns \<open>LIBUSB_ERROR_OVERFLOW\<close> when the array is too small.
\<close>

definition libusb_get_port_numbers :: "libusb_device \<Rightarrow> nat \<Rightarrow> int" where
  "libusb_get_port_numbers device len =
     (if length (port_numbers device) \<le> len then int (length (port_numbers device))
      else LIBUSB_ERROR_OVERFLOW)"

subsection \<open>The macros and the model record of the headers\<close>

text \<open>
  The macros \<open>HANTEK_EP_OUT\<close>, \<open>HANTEK_EP_IN\<close>, \<open>HANTEK_TIMEOUT\<close> and
  \<open>HANTEK_TIMEOUT_MULTI\<close> are defined in a header that is not among the sources; they are
  parameters of the model.
\<close>

record hantek_defs =
  HANTEK_EP_OUT :: "8 word"
  HANTEK_EP_IN :: "8 word"
  HANTEK_TIMEOUT :: "32 word"
  HANTEK_TIMEOUT_MULTI :: "32 word"

record DSOModel =
  vendorID :: int
  productID :: int
  firmwareVersion :: int

subsection \<open>The device object\<close>

text \<open>
  What the object does to the outside: the libusb calls that change something and the
  signal it emits, in the order they happen.
\<close>

datatype usb_event =
    Open nat
  | ClaimInterface nat "8 word"
  | ReleaseInterface nat int
  | Close nat
  | RefDevice
  | UnrefDevice
  | ControlTransfer "8 word" "8 word" "16 word" "16 word" "16 word" "32 word"
  | BulkTransfer "8 word" "32 word" int "32 word"
  | DeviceDisconnected

text \<open>
  The fields of \<open>ScopeDevice\<close>. A pointer is an option (\<open>None\<close> is \<open>nullptr\<close>). \<open>Q_OS_WIN\<close>
  says whether the Windows branch of the preprocessor was compiled. \<open>ncalls\<close> counts the
  blocking libusb transfers made so far and \<open>log\<close> is the sequence of events.
\<close>

record ScopeDevice =
  model :: DSOModel
  device :: "libusb_device option"
  descriptor :: libusb_device_descriptor
  handle :: "nat option"
  findIteration :: nat
  uniqueUSBdeviceID :: "64 word"
  nInterface :: int
  outPacketLength :: "32 word"
  inPacketLength :: "32 word"
  realHW :: bool
  stopTransfer :: bool
  disconnected :: bool
  serialNumber :: string
  Q_OS_WIN :: bool
  ncalls :: nat
  log :: "usb_event list"

subsection \<open>computeUSBdeviceID\<close>

definition treeSize :: nat where "treeSize = 7"

definition port_step :: "int \<Rightarrow> 8 word list \<Rightarrow> 64 word \<Rightarrow> nat \<Rightarrow> 64 word" where
  "port_step nPorts ports uid iii =
     (let uid = push_bit 4 uid
      in if int iii < nPorts then uid OR ucast (ports ! iii AND 0x0F) else uid)"

definition computeUSBdeviceID :: "libusb_device \<Rightarrow> 64 word" where
  "computeUSBdeviceID dev =
     (let descriptor = device_descriptor dev;
          uid = ucast (bus_number dev AND 0x0F);
          ports = port_numbers dev;
          nPorts = libusb_get_port_numbers dev treeSize;
          uid = foldl (port_step nPorts ports) uid [0..<treeSize];
          uid = push_bit 16 uid;
          uid = uid OR ucast (idVendor descriptor);
          uid = push_bit 16 uid;
          uid = uid OR ucast (bcdDevice descriptor)
      in uid)"

subsection \<open>State queries\<close>

definition isDemoDevice :: "ScopeDevice \<Rightarrow> bool" where
  "isDemoDevice s = (\<not> realHW s)"

definition isConnected :: "ScopeDevice \<Rightarrow> bool" where
  "isConnected s = (isDemoDevice s \<or> (\<not> disconnected s \<and> handle s \<noteq> None))"

definition needsFirmware :: "ScopeDevice \<Rightarrow> bool" where
  "needsFirmware s =
     (uint (idProduct (descriptor s)) \<noteq> productID (model s) \<or>
      uint (idVendor (descriptor s)) \<noteq> vendorID (model s) \<or>
      uint (bcdDevice (descriptor s)) < firmwareVersion (model s))"

subsection \<open>disconnectFromDevice\<close>

definition emit :: "usb_event \<Rightarrow> ScopeDevice \<Rightarrow> ScopeDevice" where
  "emit e s = s\<lparr>log := log s @ [e]\<rparr>"

definition disconnectFromDevice :: "ScopeDevice \<Rightarrow> ScopeDevice" where
  "disconnectFromDevice s0 =
     (let s = s0\<lparr>disconnected := True\<rparr>
      in if device s = None then s
         else
           let s = (case handle s of
                      None \<Rightarrow> s
                    | Some h \<Rightarrow>
                        let s = (if nInterface s \<noteq> - 1
                                 then emit (ReleaseInterface h (nInterface s)) s else s);
                            s = s\<lparr>nInterface := - 1\<rparr>
                        in emit (Close h) s);
               s = s\<lparr>handle := None\<rparr>;
               s = (if \<not> Q_OS_WIN s then emit UnrefDevice s else s)
           in emit DeviceDisconnected s)"

subsection \<open>The blocking transfers of libusb\<close>

text \<open>
  What one blocking libusb transfer gives back: the return code, the value left in
  \<open>transferred\<close> (bulk transfers only), and whether another thread asked for the capture
  to stop (set \<open>stopTransfer\<close>) while the call blocked. The environment is a function from
  the number of the call to its reply.
\<close>

record usb_reply =
  rc :: int
  xferred :: int
  stop_request :: bool

type_synonym usb_env = "nat \<Rightarrow> usb_reply"

definition libusb_call :: "usb_env \<Rightarrow> usb_event \<Rightarrow> ScopeDevice \<Rightarrow> ScopeDevice" where
  "libusb_call usb e s =
     (emit e s)\<lparr>ncalls := Suc (ncalls s),
                stopTransfer := (stopTransfer s \<or> stop_request (usb (ncalls s)))\<rparr>"

subsection \<open>bulkTransfer\<close>

text \<open>
  The retry loop. It has no bound when \<open>attempts\<close> is \<open>-1\<close> (the counter then takes no
  part in the condition), so the loop is a partial function: \<open>None\<close> is a loop that never
  ends.
\<close>

partial_function (option) bulk_attempts ::
  "usb_env \<Rightarrow> usb_event \<Rightarrow> int \<Rightarrow> int \<Rightarrow> int \<Rightarrow> int \<Rightarrow> ScopeDevice
     \<Rightarrow> (ScopeDevice \<times> int \<times> int) option" where
  "bulk_attempts usb call attempts attempt errorCode transferred s =
     (if (attempt < attempts \<or> attempts = - 1) \<and> errorCode = LIBUSB_ERROR_TIMEOUT
      then bulk_attempts usb call attempts (attempt + 1)
             (rc (usb (ncalls s))) (xferred (usb (ncalls s))) (libusb_call usb call s)
      else Some (s, errorCode, transferred))"

declare bulk_attempts.simps [code]

definition bulkTransfer ::
  "usb_env \<Rightarrow> 8 word \<Rightarrow> 32 word \<Rightarrow> 32 word \<Rightarrow> int \<Rightarrow> 32 word \<Rightarrow> ScopeDevice
     \<Rightarrow> (ScopeDevice \<times> int) option" where
  "bulkTransfer usb ep data len attempts timeout s =
     (if handle s = None then Some (s, LIBUSB_ERROR_NO_DEVICE)
      else
        Option.bind
          (bulk_attempts usb (BulkTransfer ep data (sint len) timeout) attempts 0
             LIBUSB_ERROR_TIMEOUT 0 s)
          (\<lambda>(s, errorCode, transferred).
             let s = (if errorCode = LIBUSB_ERROR_NO_DEVICE then disconnectFromDevice s else s)
             in if errorCode < 0 then Some (s, errorCode) else Some (s, transferred)))"

subsection \<open>bulkReadMulti\<close>

text \<open>
  Modelled from the spec: \<open>hasStopped\<close> is declared in a header that is not among the
  sources; the spec calls it the check of the shared stop flag.
\<close>

definition hasStopped :: "ScopeDevice \<Rightarrow> bool" where
  "hasStopped s = stopTransfer s"

definition packetLength :: "32 word" where
  "packetLength = 512 * 78"

text \<open>
  A division by zero is undefined behaviour in C++; the model stops with a fault.
\<close>

datatype fault = DivisionByZero | NullDevice | NoConfigDescriptor

partial_function (option) chunk_loop ::
  "hantek_defs \<Rightarrow> usb_env \<Rightarrow> 32 word \<Rightarrow> int \<Rightarrow> 32 word \<Rightarrow> 32 word \<Rightarrow> int \<Rightarrow> ScopeDevice
     \<Rightarrow> (ScopeDevice \<times> int \<times> 32 word) option" where
  "chunk_loop defs usb len attempts packet received retCode s =
     (if received < len \<and> retCode = sint packetLength
      then
        if hasStopped s then Some (s, retCode, received)
        else
          Option.bind
            (bulkTransfer usb (HANTEK_EP_IN defs) (packet * packetLength)
               (min (len - received) packetLength) attempts (HANTEK_TIMEOUT_MULTI defs * 10) s)
            (\<lambda>(s, retCode).
               chunk_loop defs usb len attempts (packet + 1)
                 (if retCode > 0 then received + word_of_int retCode else received) retCode s)
      else Some (s, retCode, received))"

declare chunk_loop.simps [code]

text \<open>
  The timeout of the one transfer of the bulk mode,
  \<open>HANTEK_TIMEOUT_MULTI * length / inPacketLength\<close>: \<open>length\<close> is \<open>unsigned\<close>, so the
  product and the quotient are computed in 32 bits without sign. It is evaluated only
  where \<open>inPacketLength\<close> is not 0.
\<close>

definition bulk_timeout :: "hantek_defs \<Rightarrow> 32 word \<Rightarrow> 32 word \<Rightarrow> 32 word" where
  "bulk_timeout defs len packetSize = HANTEK_TIMEOUT_MULTI defs * len div packetSize"

text \<open>
  The buffer \<open>data\<close> is the caller's; a transfer is given the offset into it. \<open>received0\<close>
  is what the caller's variable \<open>received\<close> holds at the call.
\<close>

definition bulkReadMulti ::
  "hantek_defs \<Rightarrow> usb_env \<Rightarrow> 32 word \<Rightarrow> bool \<Rightarrow> 32 word \<Rightarrow> int \<Rightarrow> ScopeDevice
     \<Rightarrow> (fault + ScopeDevice \<times> int \<times> 32 word) option" where
  "bulkReadMulti defs usb len captureSmallBlocks received0 attempts s =
     (if handle s = None \<or> disconnected s then Some (Inr (s, LIBUSB_ERROR_NO_DEVICE, received0))
      else if captureSmallBlocks then
        Option.bind (chunk_loop defs usb len attempts 0 0 (sint packetLength) s)
          (\<lambda>(s, retCode, received).
             Some (Inr (s, if received > 0 then sint received else retCode, received)))
      else if hasStopped s then Some (Inr (s, 0, received0))
      else if inPacketLength s = 0 then Some (Inl DivisionByZero)
      else
        Option.bind
          (bulkTransfer usb (HANTEK_EP_IN defs) 0 len attempts
             (bulk_timeout defs len (inPacketLength s)) s)
          (\<lambda>(s, retCode).
             Some (Inr (s\<lparr>stopTransfer := False\<rparr>, retCode,
                        if retCode < 0 then 0 else word_of_int retCode))))"

subsection \<open>controlTransfer\<close>

partial_function (option) control_attempts ::
  "usb_env \<Rightarrow> usb_event \<Rightarrow> int \<Rightarrow> int \<Rightarrow> int \<Rightarrow> ScopeDevice \<Rightarrow> (ScopeDevice \<times> int) option" where
  "control_attempts usb call attempts attempt errorCode s =
     (if (attempt < attempts \<or> attempts = - 1) \<and> errorCode = LIBUSB_ERROR_TIMEOUT
      then control_attempts usb call attempts (attempt + 1)
             (rc (usb (ncalls s))) (libusb_call usb call s)
      else Some (s, errorCode))"

declare control_attempts.simps [code]

definition controlTransfer ::
  "hantek_defs \<Rightarrow> usb_env \<Rightarrow> 8 word \<Rightarrow> 8 word \<Rightarrow> 32 word \<Rightarrow> int \<Rightarrow> int \<Rightarrow> int \<Rightarrow> ScopeDevice
     \<Rightarrow> (ScopeDevice \<times> int) option" where
  "controlTransfer defs usb type request len val index attempts s =
     (if handle s = None \<or> disconnected s then Some (s, LIBUSB_ERROR_NO_DEVICE)
      else
        Option.bind
          (control_attempts usb
             (ControlTransfer type request (word_of_int val) (word_of_int index) (ucast len)
                (HANTEK_TIMEOUT defs))
             attempts 0 LIBUSB_ERROR_TIMEOUT s)
          (\<lambda>(s, errorCode).
             Some (if errorCode = LIBUSB_ERROR_NO_DEVICE then disconnectFromDevice s else s,
                   errorCode)))"

subsection \<open>claimInterface and connectDevice\<close>

text \<open>
  What libusb and Qt answer during one \<open>connectDevice\<close>: the result of \<open>libusb_open\<close> and
  the handle it gives, the result and the buffer of \<open>libusb_get_string_descriptor_ascii\<close>,
  the result of \<open>libusb_claim_interface\<close>, the text of \<open>libusb_strerror\<close> and the
  translation of a message.
\<close>

record connect_env =
  libusb_open :: "int \<times> nat"
  libusb_get_string_descriptor_ascii :: "int \<times> string"
  libusb_claim_interface :: int
  libusb_strerror :: "int \<Rightarrow> string"
  translate :: "string \<Rightarrow> string"

text \<open>
  A \<open>QString\<close> built from a template by calls of \<open>arg\<close> is kept as the template and the
  arguments in the order of the calls; a number comes with its field width, base and fill
  character.
\<close>

datatype qarg = ArgString string | ArgNumber nat nat nat char

type_synonym qmessage = "string \<times> qarg list"

definition libUsbErrorString :: "connect_env \<Rightarrow> int \<Rightarrow> string" where
  "libUsbErrorString env error = libusb_strerror env error"

definition is_space :: "char \<Rightarrow> bool" where
  "is_space c = (c \<in> set [CHR 0x09, CHR 0x0A, CHR 0x0B, CHR 0x0C, CHR 0x0D, CHR 0x20, CHR 0x85, CHR 0xA0])"

definition trimmed :: "string \<Rightarrow> string" where
  "trimmed str = rev (dropWhile is_space (rev (dropWhile is_space str)))"

definition readUSBdescriptor :: "connect_env \<Rightarrow> string" where
  "readUSBdescriptor env =
     (let (ret, str) = libusb_get_string_descriptor_ascii env
      in if ret > 0 then trimmed (take (nat ret) str) else [])"

definition endpoint_step ::
  "hantek_defs \<Rightarrow> ScopeDevice \<Rightarrow> libusb_endpoint_descriptor \<Rightarrow> ScopeDevice" where
  "endpoint_step defs s endpointDescriptor =
     (if bEndpointAddress endpointDescriptor = HANTEK_EP_OUT defs
      then s\<lparr>outPacketLength := ucast (wMaxPacketSize endpointDescriptor)\<rparr>
      else if bEndpointAddress endpointDescriptor = HANTEK_EP_IN defs
      then s\<lparr>inPacketLength := ucast (wMaxPacketSize endpointDescriptor)\<rparr>
      else s)"

text \<open>\<open>claimInterface\<close> is called with an open handle \<open>h\<close> only.\<close>

definition claimInterface ::
  "hantek_defs \<Rightarrow> connect_env \<Rightarrow> nat \<Rightarrow> libusb_interface_descriptor \<Rightarrow> ScopeDevice
     \<Rightarrow> int \<times> ScopeDevice" where
  "claimInterface defs env h interfaceDescriptor s =
     (let errorCode = libusb_claim_interface env
      in if errorCode < 0 then (errorCode, s)
         else
           let s = emit (ClaimInterface h (bInterfaceNumber interfaceDescriptor)) s;
               s = s\<lparr>nInterface := uint (bInterfaceNumber interfaceDescriptor)\<rparr>;
               s = s\<lparr>outPacketLength := 0\<rparr>;
               s = s\<lparr>inPacketLength := 0\<rparr>;
               s = foldl (endpoint_step defs) s (endpoint interfaceDescriptor)
           in (LIBUSB_SUCCESS, s))"

text \<open>
  The scan of \<open>connectDevice\<close> over the interfaces of the configuration: the first
  interface that has an alternate setting and whose first setting is vendor specific with
  subclass and protocol 0 is claimed, and the scan ends there.
\<close>

fun find_interface ::
  "hantek_defs \<Rightarrow> connect_env \<Rightarrow> nat \<Rightarrow> libusb_interface list \<Rightarrow> ScopeDevice
     \<Rightarrow> int \<times> ScopeDevice" where
  "find_interface defs env h [] s = (LIBUSB_ERROR_NOT_FOUND, s)"
| "find_interface defs env h (pInterface # rest) s =
     (case altsetting pInterface of
        [] \<Rightarrow> find_interface defs env h rest s
      | interfaceDescriptor # _ \<Rightarrow>
          if bInterfaceClass interfaceDescriptor = LIBUSB_CLASS_VENDOR_SPEC \<and>
             bInterfaceSubClass interfaceDescriptor = 0 \<and>
             bInterfaceProtocol interfaceDescriptor = 0
          then claimInterface defs env h interfaceDescriptor s
          else find_interface defs env h rest s)"

text \<open>
  \<open>connectDevice\<close> gives the updated object, its result and the error message of the
  caller. \<open>libusb_open\<close> on a null device and the use of a configuration descriptor that
  libusb did not deliver are faults.
\<close>

definition connectDevice ::
  "hantek_defs \<Rightarrow> connect_env \<Rightarrow> qmessage \<Rightarrow> ScopeDevice
     \<Rightarrow> fault + ScopeDevice \<times> bool \<times> qmessage" where
  "connectDevice defs env errorMessage s =
     (if needsFirmware s then Inr (s, False, errorMessage)
      else if isConnected s then Inr (s, True, errorMessage)
      else
        case device s of
          None \<Rightarrow> Inl NullDevice
        | Some dev \<Rightarrow>
            let (errorCode, h) = libusb_open env
            in if errorCode \<noteq> LIBUSB_SUCCESS
               then Inr (s\<lparr>handle := None\<rparr>, False,
                         (translate env ''Couldn't open device: %1'',
                          [ArgString (libUsbErrorString env errorCode)]))
               else
                 let s = (emit (Open h) s)\<lparr>handle := Some h\<rparr>;
                     s = s\<lparr>serialNumber := readUSBdescriptor env\<rparr>
                 in case config_descriptor dev of
                      None \<Rightarrow> Inl NoConfigDescriptor
                    | Some configDescriptor \<Rightarrow>
                        let (errorCode, s) = find_interface defs env h (interface configDescriptor) s
                        in if errorCode \<noteq> LIBUSB_SUCCESS
                           then Inr (s, False,
                                     (''%1 (%2:%3)'',
                                      [ArgString (libUsbErrorString env errorCode),
                                       ArgNumber (unat (bus_number dev)) 3 10 CHR ''0'',
                                       ArgNumber (unat (device_address dev)) 3 10 CHR ''0'']))
                           else Inr (s\<lparr>disconnected := False\<rparr>, True, errorMessage))"

subsection \<open>The constructors\<close>

text \<open>
  Modelled from the spec: the members that the constructors do not initialise take the
  initialisers of the class declaration, which is not among the sources. By the spec a
  device is created unopened and disconnected, with no interface claimed (\<open>-1\<close>), and the
  stop flag is not set.
\<close>

definition ScopeDevice_real :: "bool \<Rightarrow> DSOModel \<Rightarrow> libusb_device \<Rightarrow> nat \<Rightarrow> ScopeDevice" where
  "ScopeDevice_real win m dev iteration =
     \<lparr>model = m, device = Some dev, descriptor = device_descriptor dev, handle = None,
      findIteration = iteration, uniqueUSBdeviceID = computeUSBdeviceID dev,
      nInterface = - 1, outPacketLength = 0, inPacketLength = 0, realHW = True,
      stopTransfer = False, disconnected = True, serialNumber = [], Q_OS_WIN = win,
      ncalls = 0, log = [RefDevice]\<rparr>"

text \<open>
  The demo device has no libusb device; its descriptor and \<open>findIteration\<close> are never
  written and are whatever the memory holds.
\<close>

definition ScopeDevice_demo ::
  "bool \<Rightarrow> DSOModel \<Rightarrow> libusb_device_descriptor \<Rightarrow> nat \<Rightarrow> ScopeDevice" where
  "ScopeDevice_demo win modelDEMO d iteration =
     \<lparr>model = modelDEMO, device = None, descriptor = d, handle = None,
      findIteration = iteration, uniqueUSBdeviceID = 0,
      nInterface = - 1, outPacketLength = 0, inPacketLength = 0, realHW = False,
      stopTransfer = False, disconnected = True, serialNumber = [], Q_OS_WIN = win,
      ncalls = 0, log = []\<rparr>"

section \<open>Notions of the statements\<close>

text \<open>
  The object after \<open>n\<close> blocking libusb transfers with the same arguments: each adds
  its event to the log, counts as a call and takes over a stop request.
\<close>

primrec after_calls :: "usb_env \<Rightarrow> usb_event \<Rightarrow> nat \<Rightarrow> ScopeDevice \<Rightarrow> ScopeDevice" where
  "after_calls usb call 0 s = s"
| "after_calls usb call (Suc n) s = after_calls usb call n (libusb_call usb call s)"

definition control_call ::
  "hantek_defs \<Rightarrow> 8 word \<Rightarrow> 8 word \<Rightarrow> 32 word \<Rightarrow> int \<Rightarrow> int \<Rightarrow> usb_event" where
  "control_call defs type request len val index =
     ControlTransfer type request (word_of_int val) (word_of_int index) (ucast len)
       (HANTEK_TIMEOUT defs)"

text \<open>
  What holds of every object the constructors make and the operations keep: a real
  device is one with a libusb device, a handle is open on a libusb device only, a device
  without a handle is marked disconnected, and an interface is recorded as claimed only
  while the handle is open and the device is connected.
\<close>

definition ScopeDevice_inv :: "ScopeDevice \<Rightarrow> bool" where
  "ScopeDevice_inv s =
     ((realHW s \<longleftrightarrow> device s \<noteq> None) \<and>
      (handle s = None \<or> device s \<noteq> None) \<and>
      (handle s \<noteq> None \<or> disconnected s) \<and>
      (nInterface s = - 1 \<or> (handle s \<noteq> None \<and> \<not> disconnected s)))"

subsection \<open>Example values\<close>

text \<open>
  A device of the 6022 family at bus 1, port 2, with one vendor specific interface and
  its two bulk endpoints, the model it is to be, and values for the macros.
\<close>

definition example_defs :: hantek_defs where
  "example_defs =
     \<lparr>HANTEK_EP_OUT = 0x02, HANTEK_EP_IN = 0x86, HANTEK_TIMEOUT = 500,
      HANTEK_TIMEOUT_MULTI = 100\<rparr>"

definition example_model :: DSOModel where
  "example_model = \<lparr>vendorID = 0x04B5, productID = 0x6022, firmwareVersion = 0x0200\<rparr>"

definition example_interface :: libusb_interface_descriptor where
  "example_interface =
     \<lparr>bInterfaceNumber = 0, bInterfaceClass = 0xFF, bInterfaceSubClass = 0,
      bInterfaceProtocol = 0,
      endpoint = [\<lparr>bEndpointAddress = 0x02, wMaxPacketSize = 512\<rparr>,
                  \<lparr>bEndpointAddress = 0x86, wMaxPacketSize = 512\<rparr>]\<rparr>"

definition example_device :: libusb_device where
  "example_device =
     \<lparr>bus_number = 1, port_numbers = [2], device_address = 5,
      device_descriptor =
        \<lparr>idVendor = 0x04B5, idProduct = 0x6022, bcdDevice = 0x0200, iSerialNumber = 3\<rparr>,
      config_descriptor = Some \<lparr>interface = [\<lparr>altsetting = [example_interface]\<rparr>]\<rparr>\<rparr>"

definition example_scope :: ScopeDevice where
  "example_scope = ScopeDevice_real False example_model example_device 0"

text \<open>The same device once connected, with handle 1 and interface 0.\<close>

definition connected_scope :: ScopeDevice where
  "connected_scope =
     example_scope\<lparr>handle := Some 1, nInterface := 0, outPacketLength := 512,
       inPacketLength := 512, disconnected := False, serialNumber := ''0001'',
       log := [RefDevice, Open 1, ClaimInterface 1 0]\<rparr>"

text \<open>
  Replies of libusb: a timeout, the loss of the device, \<open>n\<close> bytes moved by a bulk
  transfer, and the result \<open>n\<close> of a control transfer.
\<close>

definition reply_timeout :: usb_reply where
  "reply_timeout = \<lparr>rc = LIBUSB_ERROR_TIMEOUT, xferred = 0, stop_request = False\<rparr>"

definition reply_no_device :: usb_reply where
  "reply_no_device = \<lparr>rc = LIBUSB_ERROR_NO_DEVICE, xferred = 0, stop_request = False\<rparr>"

definition reply_bytes :: "int \<Rightarrow> usb_reply" where
  "reply_bytes n = \<lparr>rc = LIBUSB_SUCCESS, xferred = n, stop_request = False\<rparr>"

definition reply_control :: "int \<Rightarrow> usb_reply" where
  "reply_control n = \<lparr>rc = n, xferred = 0, stop_request = False\<rparr>"

text \<open>
  An interface like the example's without the bulk IN endpoint, answers of libusb and Qt
  to a \<open>connectDevice\<close> that succeeds, and the example device with that interface.
\<close>

definition example_interface_no_in :: libusb_interface_descriptor where
  "example_interface_no_in =
     example_interface\<lparr>endpoint := [\<lparr>bEndpointAddress = 0x02, wMaxPacketSize = 512\<rparr>]\<rparr>"

definition example_env :: connect_env where
  "example_env =
     \<lparr>libusb_open = (0, 1), libusb_get_string_descriptor_ascii = (4, ''0001''),
      libusb_claim_interface = 0,
      libusb_strerror = (\<lambda>e. if e = - 5 then ''Entity not found'' else ''Other error''),
      translate = (\<lambda>m. m)\<rparr>"

definition example_device_no_in :: libusb_device where
  "example_device_no_in =
     example_device\<lparr>config_descriptor :=
       Some \<lparr>interface = [\<lparr>altsetting = [example_interface_no_in]\<rparr>]\<rparr>\<rparr>"

subsection \<open>The events of a disconnection\<close>

text \<open>
  What \<open>disconnectFromDevice\<close> does to the outside from a given object: the release of
  the interface and the close of the handle, the unref of the device and the signal.
\<close>

definition close_events :: "ScopeDevice \<Rightarrow> usb_event list" where
  "close_events s =
     (case handle s of
        None \<Rightarrow> []
      | Some h \<Rightarrow>
          (if nInterface s \<noteq> - 1 then [ReleaseInterface h (nInterface s)] else []) @ [Close h])"

definition disconnect_events :: "ScopeDevice \<Rightarrow> usb_event list" where
  "disconnect_events s =
     (if device s = None then []
      else close_events s @ (if Q_OS_WIN s then [] else [UnrefDevice]) @ [DeviceDisconnected])"

subsection \<open>The chunks of a read\<close>

text \<open>
  The event of the transfer of chunk \<open>k\<close> of a chunked read of \<open>len\<close> bytes when every
  chunk before it was full, and the object after \<open>n\<close> such transfers.
\<close>

definition chunk_call :: "hantek_defs \<Rightarrow> 32 word \<Rightarrow> nat \<Rightarrow> usb_event" where
  "chunk_call defs len k =
     BulkTransfer (HANTEK_EP_IN defs) (of_nat k * packetLength)
       (sint (min (len - of_nat k * packetLength) packetLength))
       (HANTEK_TIMEOUT_MULTI defs * 10)"

definition after_chunks :: "hantek_defs \<Rightarrow> usb_env \<Rightarrow> 32 word \<Rightarrow> nat \<Rightarrow> ScopeDevice \<Rightarrow> ScopeDevice" where
  "after_chunks defs usb len n s =
     s\<lparr>log := log s @ map (chunk_call defs len) [0..<n], ncalls := ncalls s + n,
       stopTransfer := (stopTransfer s \<or> (\<exists>k\<in>{0..<n}. stop_request (usb (ncalls s + k))))\<rparr>"

text \<open>Replies of libusb to a read: one full chunk, then the loss of the device.\<close>

definition usb_chunk_then_gone :: usb_env where
  "usb_chunk_then_gone k = (if k = 0 then reply_bytes 39936 else reply_no_device)"

subsection \<open>The interface that connectDevice claims\<close>

text \<open>
  In the words of the spec: of the first alternate settings of the interfaces, in their
  order, the first whose class, subclass and protocol say vendor specific.
\<close>

definition vendor_specific :: "libusb_interface_descriptor \<Rightarrow> bool" where
  "vendor_specific d =
     (bInterfaceClass d = LIBUSB_CLASS_VENDOR_SPEC \<and> bInterfaceSubClass d = 0 \<and>
      bInterfaceProtocol d = 0)"

definition first_vendor_interface ::
  "libusb_interface list \<Rightarrow> libusb_interface_descriptor option" where
  "first_vendor_interface ifs =
     (case filter vendor_specific (concat (map (take 1 \<circ> altsetting) ifs)) of
        [] \<Rightarrow> None
      | d # _ \<Rightarrow> Some d)"

subsection \<open>The layout of the identifier\<close>

text \<open>
  The loop of \<open>computeUSBdeviceID\<close> appends one nibble for each of the seven places of
  the port tree: the low nibble of the port where the path has one, 0 where it has none.
  A topology is in the range of the layout when the bus number is below 16 and the path
  has at most seven ports, each from 1 to 15.
\<close>

definition pack_nibbles :: "64 word \<Rightarrow> 8 word list \<Rightarrow> 64 word" where
  "pack_nibbles uid ps = foldl (\<lambda>u p. push_bit 4 u OR ucast p) uid ps"

definition port_nibbles :: "libusb_device \<Rightarrow> 8 word list" where
  "port_nibbles dev =
     map (\<lambda>i. if int i < libusb_get_port_numbers dev treeSize
              then port_numbers dev ! i AND 0x0F else 0) [0..<treeSize]"

definition valid_topology :: "libusb_device \<Rightarrow> bool" where
  "valid_topology dev =
     (bus_number dev < 16 \<and> length (port_numbers dev) \<le> 7 \<and>
      (\<forall>p\<in>set (port_numbers dev). p \<noteq> 0 \<and> p < 16))"

section \<open>Properties\<close>

subsection \<open>The retry loops\<close>

lemma stop_request_shift:
  "(stop_request (usb c) \<or> (\<exists>k<n. stop_request (usb (Suc (c + k))))) =
   (\<exists>k<Suc n. stop_request (usb (c + k)))" (is "?l = ?r")
proof
  assume ?l
  then show ?r
  proof
    assume "stop_request (usb c)"
    then have "0 < Suc n \<and> stop_request (usb (c + 0))" by simp
    then show ?r by blast
  next
    assume "\<exists>k<n. stop_request (usb (Suc (c + k)))"
    then obtain k where "k < n" "stop_request (usb (Suc (c + k)))" by blast
    then have "Suc k < Suc n \<and> stop_request (usb (c + Suc k))" by simp
    then show ?r by blast
  qed
next
  assume ?r
  then obtain k where k: "k < Suc n" "stop_request (usb (c + k))" by blast
  show ?l
  proof (cases k)
    case 0
    with k show ?thesis by simp
  next
    case (Suc j)
    with k have "j < n \<and> stop_request (usb (Suc (c + j)))" by simp
    then show ?thesis by blast
  qed
qed

lemma after_calls_fields:
  "after_calls usb call n s =
     s\<lparr>log := log s @ replicate n call, ncalls := ncalls s + n,
       stopTransfer := (stopTransfer s \<or> (\<exists>k<n. stop_request (usb (ncalls s + k))))\<rparr>"
proof (induction n arbitrary: s)
  case 0
  show ?case by simp
next
  case (Suc n)
  show ?case
    by (simp add: Suc.IH libusb_call_def emit_def replicate_app_Cons_same
        stop_request_shift [symmetric] disj_assoc)
qed

lemma after_calls_Suc: 
  "after_calls usb call (Suc n) s = libusb_call usb call (after_calls usb call n s)"
  by (induction n arbitrary: s) simp_all

lemma timeouts_shift:
  assumes "\<forall>k<Suc n. rc (usb (ncalls s + k)) = LIBUSB_ERROR_TIMEOUT"
  shows "rc (usb (ncalls s)) = LIBUSB_ERROR_TIMEOUT"
    and "\<forall>k<n. rc (usb (ncalls (libusb_call usb call s) + k)) = LIBUSB_ERROR_TIMEOUT"
proof -
  from assms have "rc (usb (ncalls s + 0)) = LIBUSB_ERROR_TIMEOUT" by blast
  then show "rc (usb (ncalls s)) = LIBUSB_ERROR_TIMEOUT" by simp
  show "\<forall>k<n. rc (usb (ncalls (libusb_call usb call s) + k)) = LIBUSB_ERROR_TIMEOUT"
  proof (intro allI impI)
    fix k assume "k < n"
    then have "Suc k < Suc n" by simp
    with assms have "rc (usb (ncalls s + Suc k)) = LIBUSB_ERROR_TIMEOUT" by blast
    then show "rc (usb (ncalls (libusb_call usb call s) + k)) = LIBUSB_ERROR_TIMEOUT"
      by (simp add: libusb_call_def emit_def)
  qed
qed

lemma control_attempts_timeouts:
  assumes "\<forall>k<n. rc (usb (ncalls s + k)) = LIBUSB_ERROR_TIMEOUT"
    and "attempt + int n \<le> attempts \<or> attempts = - 1"
  shows "control_attempts usb call attempts attempt LIBUSB_ERROR_TIMEOUT s =
         control_attempts usb call attempts (attempt + int n) LIBUSB_ERROR_TIMEOUT
           (after_calls usb call n s)"
  using assms
proof (induction n arbitrary: s attempt)
  case 0
  show ?case by simp
next
  case (Suc n)
  note first = timeouts_shift(1) [OF Suc.prems(1)]
  note rest = timeouts_shift(2) [OF Suc.prems(1), of call]
  have bound: "(attempt + 1) + int n \<le> attempts \<or> attempts = - 1"
    using Suc.prems(2) by auto
  have go: "attempt < attempts \<or> attempts = - 1"
    using Suc.prems(2) by auto
  have "control_attempts usb call attempts attempt LIBUSB_ERROR_TIMEOUT s =
        control_attempts usb call attempts (attempt + 1) LIBUSB_ERROR_TIMEOUT
          (libusb_call usb call s)"
    using go first by (subst control_attempts.simps) simp
  also have "\<dots> = control_attempts usb call attempts ((attempt + 1) + int n)
                     LIBUSB_ERROR_TIMEOUT (after_calls usb call n (libusb_call usb call s))"
    by (rule Suc.IH [OF rest bound])
  finally show ?case by (simp add: ac_simps)
qed

lemma control_attempts_run:
  assumes tmo: "\<forall>k<n. rc (usb (ncalls s + k)) = LIBUSB_ERROR_TIMEOUT"
    and last: "rc (usb (ncalls s + n)) \<noteq> LIBUSB_ERROR_TIMEOUT"
    and bound: "int n < attempts \<or> attempts = - 1"
  shows "control_attempts usb call attempts 0 LIBUSB_ERROR_TIMEOUT s =
         Some (after_calls usb call (Suc n) s, rc (usb (ncalls s + n)))"
proof -
  let ?sn = "after_calls usb call n s"
  have nc: "ncalls ?sn = ncalls s + n"
    by (simp add: after_calls_fields)
  have "control_attempts usb call attempts 0 LIBUSB_ERROR_TIMEOUT s =
        control_attempts usb call attempts (0 + int n) LIBUSB_ERROR_TIMEOUT ?sn"
    using bound by (intro control_attempts_timeouts [OF tmo]) auto
  also have "\<dots> = control_attempts usb call attempts (int n + 1) (rc (usb (ncalls s + n)))
                     (libusb_call usb call ?sn)"
    using bound by (subst control_attempts.simps) (simp add: nc)
  also have "\<dots> = Some (libusb_call usb call ?sn, rc (usb (ncalls s + n)))"
    using last by (subst control_attempts.simps) simp
  finally show ?thesis by (simp only: after_calls_Suc)
qed

lemma control_attempts_exhaust:
  assumes tmo: "\<forall>k<n. rc (usb (ncalls s + k)) = LIBUSB_ERROR_TIMEOUT"
    and bound: "attempts = int n"
  shows "control_attempts usb call attempts 0 LIBUSB_ERROR_TIMEOUT s =
         Some (after_calls usb call n s, LIBUSB_ERROR_TIMEOUT)"
proof -
  have "control_attempts usb call attempts 0 LIBUSB_ERROR_TIMEOUT s =
        control_attempts usb call attempts (0 + int n) LIBUSB_ERROR_TIMEOUT
          (after_calls usb call n s)"
    using bound by (intro control_attempts_timeouts [OF tmo]) auto
  also have "\<dots> = Some (after_calls usb call n s, LIBUSB_ERROR_TIMEOUT)"
    using bound by (subst control_attempts.simps) simp
  finally show ?thesis .
qed

lemma control_attempts_never:
  assumes ret: "control_attempts usb call attempts attempt errorCode s = Some y"
  shows "\<not> (attempts = - 1 \<and> errorCode = LIBUSB_ERROR_TIMEOUT \<and>
            (\<forall>k. rc (usb (ncalls s + k)) = LIBUSB_ERROR_TIMEOUT))"
proof (rule control_attempts.raw_induct
    [where P = "\<lambda>usb call attempts attempt errorCode s y.
       \<not> (attempts = - 1 \<and> errorCode = LIBUSB_ERROR_TIMEOUT \<and>
            (\<forall>k. rc (usb (ncalls s + k)) = LIBUSB_ERROR_TIMEOUT))", OF _ ret], goal_cases)
  case (1 f usb call attempts attempt errorCode s y)
  show ?case
  proof
    assume a: "attempts = - 1 \<and> errorCode = LIBUSB_ERROR_TIMEOUT \<and>
            (\<forall>k. rc (usb (ncalls s + k)) = LIBUSB_ERROR_TIMEOUT)"
    then have all: "\<forall>k<Suc 0. rc (usb (ncalls s + k)) = LIBUSB_ERROR_TIMEOUT"
      by blast
    note first = timeouts_shift(1) [OF all]
    from a 1(2) have call:
      "f usb call attempts (attempt + 1) LIBUSB_ERROR_TIMEOUT (libusb_call usb call s) = Some y"
      by (simp add: first)
    have "\<forall>k. rc (usb (ncalls (libusb_call usb call s) + k)) = LIBUSB_ERROR_TIMEOUT"
    proof
      fix k
      from a have "rc (usb (ncalls s + Suc k)) = LIBUSB_ERROR_TIMEOUT" by blast
      then show "rc (usb (ncalls (libusb_call usb call s) + k)) = LIBUSB_ERROR_TIMEOUT"
        by (simp add: libusb_call_def emit_def)
    qed
    with 1(1) [OF call] a show False by simp
  qed
qed

lemma control_attempts_forever:
  assumes "\<forall>k. rc (usb (ncalls s + k)) = LIBUSB_ERROR_TIMEOUT"
  shows "control_attempts usb call (- 1) attempt LIBUSB_ERROR_TIMEOUT s = None"
proof (cases "control_attempts usb call (- 1) attempt LIBUSB_ERROR_TIMEOUT s")
  case None
  then show ?thesis .
next
  case (Some y)
  from control_attempts_never [OF Some] assms show ?thesis by simp
qed

lemma bulk_attempts_timeouts:
  assumes "\<forall>k<n. rc (usb (ncalls s + k)) = LIBUSB_ERROR_TIMEOUT"
    and "attempt + int n \<le> attempts \<or> attempts = - 1"
  shows "\<exists>t. bulk_attempts usb call attempts attempt LIBUSB_ERROR_TIMEOUT transferred s =
         bulk_attempts usb call attempts (attempt + int n) LIBUSB_ERROR_TIMEOUT t
           (after_calls usb call n s)"
  using assms
proof (induction n arbitrary: s attempt transferred)
  case 0
  show ?case by auto
next
  case (Suc n)
  note first = timeouts_shift(1) [OF Suc.prems(1)]
  note rest = timeouts_shift(2) [OF Suc.prems(1), of call]
  have bound: "(attempt + 1) + int n \<le> attempts \<or> attempts = - 1"
    using Suc.prems(2) by auto
  have go: "attempt < attempts \<or> attempts = - 1"
    using Suc.prems(2) by auto
  have step: "bulk_attempts usb call attempts attempt LIBUSB_ERROR_TIMEOUT transferred s =
        bulk_attempts usb call attempts (attempt + 1) LIBUSB_ERROR_TIMEOUT
          (xferred (usb (ncalls s))) (libusb_call usb call s)"
    using go first by (subst bulk_attempts.simps) simp
  from Suc.IH [OF rest bound, of "xferred (usb (ncalls s))"]
  obtain t where "bulk_attempts usb call attempts (attempt + 1) LIBUSB_ERROR_TIMEOUT
          (xferred (usb (ncalls s))) (libusb_call usb call s) =
        bulk_attempts usb call attempts ((attempt + 1) + int n) LIBUSB_ERROR_TIMEOUT t
          (after_calls usb call n (libusb_call usb call s))"
    by blast
  with step have "bulk_attempts usb call attempts attempt LIBUSB_ERROR_TIMEOUT transferred s =
      bulk_attempts usb call attempts (attempt + int (Suc n)) LIBUSB_ERROR_TIMEOUT t
          (after_calls usb call (Suc n) s)"
    by (simp add: ac_simps)
  then show ?case by blast
qed

lemma bulk_attempts_run:
  assumes tmo: "\<forall>k<n. rc (usb (ncalls s + k)) = LIBUSB_ERROR_TIMEOUT"
    and last: "rc (usb (ncalls s + n)) \<noteq> LIBUSB_ERROR_TIMEOUT"
    and bound: "int n < attempts \<or> attempts = - 1"
  shows "bulk_attempts usb call attempts 0 LIBUSB_ERROR_TIMEOUT transferred s =
         Some (after_calls usb call (Suc n) s, rc (usb (ncalls s + n)),
               xferred (usb (ncalls s + n)))"
proof -
  let ?sn = "after_calls usb call n s"
  have nc: "ncalls ?sn = ncalls s + n"
    by (simp add: after_calls_fields)
  have b: "0 + int n \<le> attempts \<or> attempts = - 1"
    using bound by auto
  from bulk_attempts_timeouts [OF tmo b, of call transferred]
  obtain t where "bulk_attempts usb call attempts 0 LIBUSB_ERROR_TIMEOUT transferred s =
        bulk_attempts usb call attempts (0 + int n) LIBUSB_ERROR_TIMEOUT t ?sn"
    by blast
  also have "\<dots> = bulk_attempts usb call attempts (int n + 1) (rc (usb (ncalls s + n)))
                     (xferred (usb (ncalls s + n))) (libusb_call usb call ?sn)"
    using bound by (subst bulk_attempts.simps) (simp add: nc)
  also have "\<dots> = Some (libusb_call usb call ?sn, rc (usb (ncalls s + n)),
                          xferred (usb (ncalls s + n)))"
    using last by (subst bulk_attempts.simps) simp
  finally show ?thesis by (simp only: after_calls_Suc)
qed

lemma bulk_attempts_exhaust:
  assumes tmo: "\<forall>k<n. rc (usb (ncalls s + k)) = LIBUSB_ERROR_TIMEOUT"
    and bound: "attempts = int n"
  shows "\<exists>t. bulk_attempts usb call attempts 0 LIBUSB_ERROR_TIMEOUT transferred s =
         Some (after_calls usb call n s, LIBUSB_ERROR_TIMEOUT, t)"
proof -
  have b: "0 + int n \<le> attempts \<or> attempts = - 1"
    using bound by auto
  from bulk_attempts_timeouts [OF tmo b, of call transferred]
  obtain t where "bulk_attempts usb call attempts 0 LIBUSB_ERROR_TIMEOUT transferred s =
        bulk_attempts usb call attempts (0 + int n) LIBUSB_ERROR_TIMEOUT t
          (after_calls usb call n s)"
    by blast
  also have "\<dots> = Some (after_calls usb call n s, LIBUSB_ERROR_TIMEOUT, t)"
    using bound by (subst bulk_attempts.simps) simp
  finally show ?thesis by blast
qed

text \<open>The transfers in terms of the replies.\<close>

lemma error_codes:
  "LIBUSB_ERROR_TIMEOUT \<noteq> LIBUSB_ERROR_NO_DEVICE"
  "LIBUSB_ERROR_TIMEOUT < 0"
  "LIBUSB_ERROR_NO_DEVICE < 0"
  "LIBUSB_ERROR_NO_DEVICE \<noteq> LIBUSB_ERROR_TIMEOUT"
  by (simp_all add: LIBUSB_ERROR_TIMEOUT_def LIBUSB_ERROR_NO_DEVICE_def)

lemma after_calls_frame:
  "handle (after_calls usb call n s) = handle s"
  "device (after_calls usb call n s) = device s"
  "disconnected (after_calls usb call n s) = disconnected s"
  "realHW (after_calls usb call n s) = realHW s"
  "nInterface (after_calls usb call n s) = nInterface s"
  "Q_OS_WIN (after_calls usb call n s) = Q_OS_WIN s"
  "inPacketLength (after_calls usb call n s) = inPacketLength s"
  "ncalls (after_calls usb call n s) = ncalls s + n"
  "log (after_calls usb call n s) = log s @ replicate n call"
  by (simp_all add: after_calls_fields)

lemma controlTransfer_run:
  assumes conn: "handle s \<noteq> None" "\<not> disconnected s"
    and tmo: "\<forall>k<n. rc (usb (ncalls s + k)) = LIBUSB_ERROR_TIMEOUT"
    and last: "rc (usb (ncalls s + n)) \<noteq> LIBUSB_ERROR_TIMEOUT"
    and bound: "int n < attempts \<or> attempts = - 1"
  shows "controlTransfer defs usb type request len val index attempts s =
         Some (let s' = after_calls usb
                 (ControlTransfer type request (word_of_int val) (word_of_int index) (ucast len)
                    (HANTEK_TIMEOUT defs)) (Suc n) s
               in if rc (usb (ncalls s + n)) = LIBUSB_ERROR_NO_DEVICE
                  then disconnectFromDevice s' else s',
               rc (usb (ncalls s + n)))"
  by (simp add: conn controlTransfer_def control_attempts_run [OF tmo last bound] Let_def
      del: after_calls.simps)

lemma controlTransfer_exhaust:
  assumes conn: "handle s \<noteq> None" "\<not> disconnected s"
    and tmo: "\<forall>k<n. rc (usb (ncalls s + k)) = LIBUSB_ERROR_TIMEOUT"
    and bound: "attempts = int n"
  shows "controlTransfer defs usb type request len val index attempts s =
         Some (after_calls usb
                 (ControlTransfer type request (word_of_int val) (word_of_int index) (ucast len)
                    (HANTEK_TIMEOUT defs)) n s,
               LIBUSB_ERROR_TIMEOUT)"
  by (simp add: conn controlTransfer_def control_attempts_exhaust [OF tmo bound] error_codes
      del: after_calls.simps)

lemma controlTransfer_forever:
  assumes conn: "handle s \<noteq> None" "\<not> disconnected s"
    and tmo: "\<forall>k. rc (usb (ncalls s + k)) = LIBUSB_ERROR_TIMEOUT"
  shows "controlTransfer defs usb type request len val index (- 1) s = None"
  by (simp add: conn controlTransfer_def control_attempts_forever [OF tmo])

lemma bulkTransfer_run:
  assumes conn: "handle s \<noteq> None"
    and tmo: "\<forall>k<n. rc (usb (ncalls s + k)) = LIBUSB_ERROR_TIMEOUT"
    and last: "rc (usb (ncalls s + n)) \<noteq> LIBUSB_ERROR_TIMEOUT"
    and bound: "int n < attempts \<or> attempts = - 1"
  shows "bulkTransfer usb ep data len attempts timeout s =
         Some (let s' = after_calls usb (BulkTransfer ep data (sint len) timeout) (Suc n) s
               in if rc (usb (ncalls s + n)) = LIBUSB_ERROR_NO_DEVICE
                  then disconnectFromDevice s' else s',
               if rc (usb (ncalls s + n)) < 0 then rc (usb (ncalls s + n))
               else xferred (usb (ncalls s + n)))"
  by (simp add: conn bulkTransfer_def bulk_attempts_run [OF tmo last bound] Let_def error_codes
      del: after_calls.simps)

lemma bulkTransfer_exhaust:
  assumes conn: "handle s \<noteq> None"
    and tmo: "\<forall>k<n. rc (usb (ncalls s + k)) = LIBUSB_ERROR_TIMEOUT"
    and bound: "attempts = int n"
  shows "bulkTransfer usb ep data len attempts timeout s =
         Some (after_calls usb (BulkTransfer ep data (sint len) timeout) n s,
               LIBUSB_ERROR_TIMEOUT)"
proof -
  from bulk_attempts_exhaust [OF tmo bound, of "BulkTransfer ep data (sint len) timeout" 0]
  obtain t where "bulk_attempts usb (BulkTransfer ep data (sint len) timeout) attempts 0
      LIBUSB_ERROR_TIMEOUT 0 s =
      Some (after_calls usb (BulkTransfer ep data (sint len) timeout) n s,
            LIBUSB_ERROR_TIMEOUT, t)"
    by blast
  then show ?thesis
    by (simp add: conn bulkTransfer_def error_codes del: after_calls.simps)
qed

subsection \<open>disconnectFromDevice in terms of the fields\<close>

lemma disconnect_fields:
  "disconnectFromDevice s =
     (if device s = None then s\<lparr>disconnected := True\<rparr>
      else s\<lparr>disconnected := True, handle := None,
             nInterface := (if handle s = None then nInterface s else - 1),
             log := log s @ disconnect_events s\<rparr>)"
  by (cases "handle s")
    (simp_all add: disconnectFromDevice_def emit_def close_events_def disconnect_events_def Let_def)

lemma disconnect_frame:
  "disconnected (disconnectFromDevice s)"
  "device (disconnectFromDevice s) = device s"
  "realHW (disconnectFromDevice s) = realHW s"
  "ncalls (disconnectFromDevice s) = ncalls s"
  "Q_OS_WIN (disconnectFromDevice s) = Q_OS_WIN s"
  "stopTransfer (disconnectFromDevice s) = stopTransfer s"
  "inPacketLength (disconnectFromDevice s) = inPacketLength s"
  "log (disconnectFromDevice s) = log s @ disconnect_events s"
  by (simp_all add: disconnect_fields disconnect_events_def)

lemma disconnect_handle:
  "device s \<noteq> None \<Longrightarrow> handle (disconnectFromDevice s) = None"
  by (auto simp: disconnect_fields)

lemma count_disconnect_events:
  "count_list (disconnect_events s) DeviceDisconnected = (if device s = None then 0 else 1)"
  by (cases "handle s") (simp_all add: disconnect_events_def close_events_def)

lemma count_replicate_other:
  "e \<noteq> DeviceDisconnected \<Longrightarrow> count_list (replicate n e) DeviceDisconnected = 0"
  by (induction n) simp_all

text \<open>What a transfer that loses the device leaves behind.\<close>

lemma gone_state:
  assumes real: "realHW s" "device s \<noteq> None"
    and call: "call \<noteq> DeviceDisconnected"
    and s'_def: "s' = disconnectFromDevice (after_calls usb call m s)"
  shows "\<not> isConnected s'" "handle s' = None" "disconnected s'" "ncalls s' = ncalls s + m"
    "log s' = log s @ replicate m call @ disconnect_events s"
    "count_list (log s') DeviceDisconnected = count_list (log s) DeviceDisconnected + 1"
proof -
  let ?a = "after_calls usb call m s"
  have dev: "device ?a \<noteq> None"
    using real by (simp add: after_calls_frame)
  show h: "handle s' = None"
    unfolding s'_def by (rule disconnect_handle [OF dev])
  show d: "disconnected s'"
    unfolding s'_def by (rule disconnect_frame(1))
  have "realHW s'"
    unfolding s'_def using real by (simp add: disconnect_frame after_calls_frame)
  with d show "\<not> isConnected s'"
    by (simp add: isConnected_def isDemoDevice_def)
  show "ncalls s' = ncalls s + m"
    unfolding s'_def by (simp add: disconnect_frame after_calls_frame)
  have ev: "disconnect_events ?a = disconnect_events s"
    by (simp add: disconnect_events_def close_events_def after_calls_frame
        cong: option.case_cong if_cong)
  show l: "log s' = log s @ replicate m call @ disconnect_events s"
    unfolding s'_def by (simp add: disconnect_frame after_calls_frame ev)
  show "count_list (log s') DeviceDisconnected = count_list (log s) DeviceDisconnected + 1"
    using real call by (simp add: l count_disconnect_events count_replicate_other)
qed

subsection \<open>Loss of the device during a transfer\<close>

text \<open>
  C1. On a real device (one with a libusb device) with an open handle, when libusb answers
  a control or a bulk transfer with \<open>LIBUSB_ERROR_NO_DEVICE\<close> (after any number of
  timeouts that the attempts allow), the transfer returns that code together with an
  object that is already disconnected: \<open>isConnected\<close> is false, the handle is gone, the
  interface was released and the handle closed after the last transfer, and the log holds
  exactly one more \<open>DeviceDisconnected\<close> signal than before. A control transfer reaches
  libusb only when the object is not marked disconnected.
\<close>

theorem device_gone_disconnects:
  assumes real: "realHW s" "device s \<noteq> None"
    and opened: "handle s \<noteq> None"
    and tmo: "\<forall>k<n. rc (usb (ncalls s + k)) = LIBUSB_ERROR_TIMEOUT"
    and gone: "rc (usb (ncalls s + n)) = LIBUSB_ERROR_NO_DEVICE"
    and bound: "int n < attempts \<or> attempts = - 1"
  shows "(\<not> disconnected s \<longrightarrow>
           (\<exists>s'. controlTransfer defs usb type request len val index attempts s =
                   Some (s', LIBUSB_ERROR_NO_DEVICE) \<and>
                 \<not> isConnected s' \<and> handle s' = None \<and> disconnected s' \<and>
                 log s' = log s @ replicate (Suc n) (control_call defs type request len val index)
                            @ disconnect_events s \<and>
                 count_list (log s') DeviceDisconnected =
                   count_list (log s) DeviceDisconnected + 1)) \<and>
         (\<exists>s'. bulkTransfer usb ep data len attempts timeout s =
                   Some (s', LIBUSB_ERROR_NO_DEVICE) \<and>
               \<not> isConnected s' \<and> handle s' = None \<and> disconnected s' \<and>
               log s' = log s @ replicate (Suc n) (BulkTransfer ep data (sint len) timeout)
                          @ disconnect_events s \<and>
               count_list (log s') DeviceDisconnected =
                 count_list (log s) DeviceDisconnected + 1)"
proof (intro conjI impI)
  have last: "rc (usb (ncalls s + n)) \<noteq> LIBUSB_ERROR_TIMEOUT"
    using gone by (simp add: error_codes)
  {
    assume conn: "\<not> disconnected s"
    let ?call = "control_call defs type request len val index"
    let ?s' = "disconnectFromDevice (after_calls usb ?call (Suc n) s)"
    have "controlTransfer defs usb type request len val index attempts s =
            Some (?s', LIBUSB_ERROR_NO_DEVICE)"
      using controlTransfer_run [OF opened conn tmo last bound, of defs type request len val index]
      by (simp add: gone control_call_def del: after_calls.simps)
    moreover have "?call \<noteq> DeviceDisconnected"
      by (simp add: control_call_def)
    note gone_state [OF real this refl, of usb "Suc n"]
    ultimately show "\<exists>s'. controlTransfer defs usb type request len val index attempts s =
                   Some (s', LIBUSB_ERROR_NO_DEVICE) \<and>
                 \<not> isConnected s' \<and> handle s' = None \<and> disconnected s' \<and>
                 log s' = log s @ replicate (Suc n) (control_call defs type request len val index)
                            @ disconnect_events s \<and>
                 count_list (log s') DeviceDisconnected =
                   count_list (log s) DeviceDisconnected + 1"
      by blast
  }
  let ?call = "BulkTransfer ep data (sint len) timeout"
  let ?s' = "disconnectFromDevice (after_calls usb ?call (Suc n) s)"
  have "bulkTransfer usb ep data len attempts timeout s = Some (?s', LIBUSB_ERROR_NO_DEVICE)"
    using bulkTransfer_run [OF opened tmo last bound, of ep data len timeout]
    by (simp add: gone error_codes del: after_calls.simps)
  moreover have "?call \<noteq> DeviceDisconnected"
    by simp
  note gone_state [OF real this refl, of usb "Suc n"]
  ultimately show "\<exists>s'. bulkTransfer usb ep data len attempts timeout s =
                   Some (s', LIBUSB_ERROR_NO_DEVICE) \<and>
               \<not> isConnected s' \<and> handle s' = None \<and> disconnected s' \<and>
               log s' = log s @ replicate (Suc n) (BulkTransfer ep data (sint len) timeout)
                          @ disconnect_events s \<and>
               count_list (log s') DeviceDisconnected =
                 count_list (log s) DeviceDisconnected + 1"
    by blast
qed


lemma example_facts:
  "realHW connected_scope" "device connected_scope \<noteq> None"
  "handle connected_scope \<noteq> None" "\<not> disconnected connected_scope"
  "ncalls connected_scope = 0"
  by (simp_all add: connected_scope_def example_scope_def ScopeDevice_real_def)

theorem device_gone_disconnects_witness:
  "map_option snd (controlTransfer example_defs (\<lambda>k. reply_no_device) 0x40 0xE0 512 0 0 1
      connected_scope) = Some LIBUSB_ERROR_NO_DEVICE \<and>
   map_option (isConnected \<circ> fst) (controlTransfer example_defs (\<lambda>k. reply_no_device) 0x40 0xE0 512 0 0 1
      connected_scope) = Some False \<and>
   map_option snd (bulkTransfer (\<lambda>k. reply_no_device) 0x86 0 512 1 1000
      connected_scope) = Some LIBUSB_ERROR_NO_DEVICE \<and>
   map_option (isConnected \<circ> fst) (bulkTransfer (\<lambda>k. reply_no_device) 0x86 0 512 1 1000
      connected_scope) = Some False"
  using device_gone_disconnects [where s = connected_scope and n = 0
      and usb = "\<lambda>k. reply_no_device" and attempts = 1 and defs = example_defs
      and type = "0x40" and request = "0xE0" and len = 512 and val = 0 and index = 0
      and ep = "0x86" and data = 0 and timeout = 1000]
  by (auto simp: example_facts reply_no_device_def)

subsection \<open>The retry policy of a control transfer\<close>

text \<open>
  C2. On a connected device, a control transfer with 3 attempts whose replies are all
  timeouts makes exactly 3 libusb calls and returns \<open>LIBUSB_ERROR_TIMEOUT\<close>; a reply
  other than a timeout ends the loop at once, so that after \<open>n\<close> timeouts exactly
  \<open>n + 1\<close> calls are made and that reply is returned, for every \<open>n\<close> below the
  number of attempts and for every \<open>n\<close> when the attempts are \<open>-1\<close>; and with \<open>-1\<close>
  attempts and nothing but timeouts the transfer never returns.
\<close>

theorem controlTransfer_retry:
  assumes opened: "handle s \<noteq> None" and conn: "\<not> disconnected s"
  shows "((\<forall>k<3. rc (usb (ncalls s + k)) = LIBUSB_ERROR_TIMEOUT) \<longrightarrow>
            controlTransfer defs usb type request len val index 3 s =
              Some (after_calls usb (control_call defs type request len val index) 3 s,
                    LIBUSB_ERROR_TIMEOUT) \<and>
            ncalls (after_calls usb (control_call defs type request len val index) 3 s) =
              ncalls s + 3) \<and>
         ((\<forall>k<n. rc (usb (ncalls s + k)) = LIBUSB_ERROR_TIMEOUT) \<and>
          rc (usb (ncalls s + n)) \<noteq> LIBUSB_ERROR_TIMEOUT \<and>
          (int n < attempts \<or> attempts = - 1) \<longrightarrow>
            (\<exists>s'. controlTransfer defs usb type request len val index attempts s =
                    Some (s', rc (usb (ncalls s + n))) \<and>
                  ncalls s' = ncalls s + Suc n)) \<and>
         ((\<forall>k. rc (usb (ncalls s + k)) = LIBUSB_ERROR_TIMEOUT) \<longrightarrow>
            controlTransfer defs usb type request len val index (- 1) s = None)"
proof (intro conjI impI)
  let ?call = "control_call defs type request len val index"
  {
    assume tmo: "\<forall>k<3. rc (usb (ncalls s + k)) = LIBUSB_ERROR_TIMEOUT"
    have three: "(3::int) = int 3" by simp
    show "controlTransfer defs usb type request len val index 3 s =
            Some (after_calls usb ?call 3 s, LIBUSB_ERROR_TIMEOUT)"
      using controlTransfer_exhaust [OF opened conn tmo three, of defs type request len val index]
      by (simp only: control_call_def)
    show "ncalls (after_calls usb ?call 3 s) = ncalls s + 3"
      by (rule after_calls_frame)
  }
  {
    assume a: "(\<forall>k<n. rc (usb (ncalls s + k)) = LIBUSB_ERROR_TIMEOUT) \<and>
          rc (usb (ncalls s + n)) \<noteq> LIBUSB_ERROR_TIMEOUT \<and>
          (int n < attempts \<or> attempts = - 1)"
    then have tmo: "\<forall>k<n. rc (usb (ncalls s + k)) = LIBUSB_ERROR_TIMEOUT"
      and last: "rc (usb (ncalls s + n)) \<noteq> LIBUSB_ERROR_TIMEOUT"
      and bound: "int n < attempts \<or> attempts = - 1"
      by blast+
    let ?a = "after_calls usb ?call (Suc n) s"
    let ?s' = "if rc (usb (ncalls s + n)) = LIBUSB_ERROR_NO_DEVICE
               then disconnectFromDevice ?a else ?a"
    have "controlTransfer defs usb type request len val index attempts s =
            Some (?s', rc (usb (ncalls s + n)))"
      using controlTransfer_run [OF opened conn tmo last bound, of defs type request len val index]
      by (simp add: control_call_def Let_def del: after_calls.simps)
    moreover have "ncalls ?s' = ncalls s + Suc n"
      by (simp add: disconnect_frame after_calls_frame del: after_calls.simps)
    ultimately show "\<exists>s'. controlTransfer defs usb type request len val index attempts s =
                    Some (s', rc (usb (ncalls s + n))) \<and>
                  ncalls s' = ncalls s + Suc n"
      by blast
  }
  {
    assume "\<forall>k. rc (usb (ncalls s + k)) = LIBUSB_ERROR_TIMEOUT"
    then show "controlTransfer defs usb type request len val index (- 1) s = None"
      by (rule controlTransfer_forever [OF opened conn])
  }
qed

theorem controlTransfer_retry_witness:
  "controlTransfer example_defs (\<lambda>k. reply_timeout) 0x40 0xE0 1 0 0 3 connected_scope =
     Some (after_calls (\<lambda>k. reply_timeout) (control_call example_defs 0x40 0xE0 1 0 0) 3
             connected_scope, LIBUSB_ERROR_TIMEOUT) \<and>
   map_option (ncalls \<circ> fst)
     (controlTransfer example_defs (\<lambda>k. if k < 2 then reply_timeout else reply_control 1)
        0x40 0xE0 1 0 0 5 connected_scope) = Some 3 \<and>
   map_option snd
     (controlTransfer example_defs (\<lambda>k. if k < 2 then reply_timeout else reply_control 1)
        0x40 0xE0 1 0 0 5 connected_scope) = Some 1 \<and>
   controlTransfer example_defs (\<lambda>k. reply_timeout) 0x40 0xE0 1 0 0 (- 1) connected_scope = None"
  using controlTransfer_retry [where s = connected_scope and usb = "\<lambda>k. reply_timeout"
      and defs = example_defs and type = "0x40" and request = "0xE0" and len = 1 and val = 0
      and index = 0 and n = 0 and attempts = 0]
    controlTransfer_retry [where s = connected_scope
      and usb = "\<lambda>k. if k < 2 then reply_timeout else reply_control 1"
      and defs = example_defs and type = "0x40" and request = "0xE0" and len = 1 and val = 0
      and index = 0 and n = 2 and attempts = 5]
  by (auto simp: example_facts reply_timeout_def reply_control_def LIBUSB_ERROR_TIMEOUT_def
      simp del: after_calls.simps)

subsection \<open>needsFirmware\<close>

text \<open>
  C6. \<open>needsFirmware\<close> holds exactly when the vendor ID or the product ID of the
  descriptor differs from the model's or the firmware version of the descriptor is below
  the model's; with equal IDs and a firmware version equal to the model's it does not hold.
\<close>

theorem needsFirmware_iff:
  "(needsFirmware s \<longleftrightarrow>
      uint (idVendor (descriptor s)) \<noteq> vendorID (model s) \<or>
      uint (idProduct (descriptor s)) \<noteq> productID (model s) \<or>
      uint (bcdDevice (descriptor s)) < firmwareVersion (model s)) \<and>
   (uint (idVendor (descriptor s)) = vendorID (model s) \<and>
    uint (idProduct (descriptor s)) = productID (model s) \<and>
    uint (bcdDevice (descriptor s)) = firmwareVersion (model s) \<longrightarrow> \<not> needsFirmware s)"
  by (auto simp: needsFirmware_def)

theorem needsFirmware_iff_witness:
  "\<not> needsFirmware example_scope \<and>
   needsFirmware (example_scope\<lparr>descriptor := (descriptor example_scope)\<lparr>bcdDevice := 0x0100\<rparr>\<rparr>)"
  using needsFirmware_iff [of example_scope]
    needsFirmware_iff [of "example_scope\<lparr>descriptor := (descriptor example_scope)\<lparr>bcdDevice := 0x0100\<rparr>\<rparr>"]
  by (simp add: example_scope_def ScopeDevice_real_def example_device_def example_model_def)

subsection \<open>Closing twice\<close>

lemma filter_close_events:
  "filter (\<lambda>e. e \<noteq> UnrefDevice) (close_events s) = close_events s"
  by (cases "handle s") (simp_all add: close_events_def)

lemma filter_disconnect_events:
  "filter (\<lambda>e. e \<noteq> UnrefDevice) (disconnect_events s) =
     (if device s = None then [] else close_events s @ [DeviceDisconnected])"
  by (simp add: disconnect_events_def filter_close_events)

text \<open>
  C8, as amended. \<open>disconnectFromDevice\<close> is total (it has no error result). A second
  call changes no field of the object and releases and closes nothing, but on a real
  device it emits the signal \<open>deviceDisconnected\<close> once more. A call that finds a handle
  open releases the claimed interface, if there is one, before it closes the handle, and
  sets \<open>nInterface\<close> to \<open>-1\<close>; a call that finds no handle open leaves \<open>nInterface\<close> as
  it is, which is \<open>-1\<close> on every object that satisfies the invariant of the class. The
  calls of \<open>libusb_unref_device\<close> are left out of the statement.
\<close>

theorem disconnectFromDevice_twice:
  "disconnectFromDevice (disconnectFromDevice s) =
     (disconnectFromDevice s)\<lparr>log := log (disconnectFromDevice (disconnectFromDevice s))\<rparr> \<and>
   filter (\<lambda>e. e \<noteq> UnrefDevice) (log (disconnectFromDevice (disconnectFromDevice s))) =
     filter (\<lambda>e. e \<noteq> UnrefDevice) (log (disconnectFromDevice s)) @
     (if device s = None then [] else [DeviceDisconnected]) \<and>
   (\<forall>h. handle s = Some h \<and> device s \<noteq> None \<longrightarrow>
      filter (\<lambda>e. e \<noteq> UnrefDevice) (log (disconnectFromDevice s)) =
        filter (\<lambda>e. e \<noteq> UnrefDevice) (log s) @
        (if nInterface s \<noteq> - 1 then [ReleaseInterface h (nInterface s)] else []) @
        [Close h, DeviceDisconnected]) \<and>
   nInterface (disconnectFromDevice s) =
     (if device s \<noteq> None \<and> handle s \<noteq> None then - 1 else nInterface s) \<and>
   (device s \<noteq> None \<longrightarrow> handle (disconnectFromDevice s) = None) \<and>
   disconnected (disconnectFromDevice s) \<and>
   (ScopeDevice_inv s \<longrightarrow>
      nInterface (disconnectFromDevice s) = - 1 \<and> handle (disconnectFromDevice s) = None)"
proof (intro conjI allI impI)
  show "disconnectFromDevice (disconnectFromDevice s) =
     (disconnectFromDevice s)\<lparr>log := log (disconnectFromDevice (disconnectFromDevice s))\<rparr>"
    by (simp add: disconnect_fields disconnect_events_def close_events_def)
next
  have dev: "device (disconnectFromDevice s) = device s"
    by (rule disconnect_frame)
  have "close_events (disconnectFromDevice s) = []" if "device s \<noteq> None"
    using disconnect_handle [OF that] by (simp add: close_events_def)
  then show "filter (\<lambda>e. e \<noteq> UnrefDevice) (log (disconnectFromDevice (disconnectFromDevice s))) =
     filter (\<lambda>e. e \<noteq> UnrefDevice) (log (disconnectFromDevice s)) @
     (if device s = None then [] else [DeviceDisconnected])"
    by (simp add: disconnect_frame(8) [of "disconnectFromDevice s"] filter_disconnect_events dev)
next
  fix h
  assume a: "handle s = Some h \<and> device s \<noteq> None"
  then show "filter (\<lambda>e. e \<noteq> UnrefDevice) (log (disconnectFromDevice s)) =
        filter (\<lambda>e. e \<noteq> UnrefDevice) (log s) @
        (if nInterface s \<noteq> - 1 then [ReleaseInterface h (nInterface s)] else []) @
        [Close h, DeviceDisconnected]"
    by (simp add: disconnect_frame(8) filter_disconnect_events close_events_def)
next
  show "nInterface (disconnectFromDevice s) =
     (if device s \<noteq> None \<and> handle s \<noteq> None then - 1 else nInterface s)"
    by (auto simp: disconnect_fields)
next
  assume "device s \<noteq> None"
  then show "handle (disconnectFromDevice s) = None"
    by (rule disconnect_handle)
next
  show "disconnected (disconnectFromDevice s)"
    by (rule disconnect_frame)
next
  assume inv: "ScopeDevice_inv s"
  then show "nInterface (disconnectFromDevice s) = - 1"
    by (auto simp: disconnect_fields ScopeDevice_inv_def)
  from inv show "handle (disconnectFromDevice s) = None"
    by (auto simp: disconnect_fields ScopeDevice_inv_def)
qed

lemma example_inv: "ScopeDevice_inv connected_scope" "ScopeDevice_inv example_scope"
  by (simp_all add: ScopeDevice_inv_def connected_scope_def example_scope_def ScopeDevice_real_def)

theorem disconnectFromDevice_twice_witness:
  "filter (\<lambda>e. e \<noteq> UnrefDevice) (log (disconnectFromDevice connected_scope)) =
     [RefDevice, Open 1, ClaimInterface 1 0, ReleaseInterface 1 0, Close 1,
      DeviceDisconnected] \<and>
   filter (\<lambda>e. e \<noteq> UnrefDevice)
     (log (disconnectFromDevice (disconnectFromDevice connected_scope))) =
     [RefDevice, Open 1, ClaimInterface 1 0, ReleaseInterface 1 0, Close 1,
      DeviceDisconnected, DeviceDisconnected] \<and>
   nInterface (disconnectFromDevice connected_scope) = - 1 \<and>
   handle (disconnectFromDevice connected_scope) = None \<and>
   disconnected (disconnectFromDevice connected_scope)"
  using disconnectFromDevice_twice [of connected_scope] example_inv(1)
  by (simp add: connected_scope_def example_scope_def ScopeDevice_real_def)

text \<open>
  C8 as stated fails: the signal and the unref stand after the test of the handle, so the
  second call on a connected device, which finds the handle closed, still adds both to
  the log; the object after two calls is not the object after one.
\<close>

theorem disconnectFromDevice_second_call:
  "disconnectFromDevice (disconnectFromDevice connected_scope) \<noteq>
     disconnectFromDevice connected_scope \<and>
   log (disconnectFromDevice connected_scope) =
     [RefDevice, Open 1, ClaimInterface 1 0, ReleaseInterface 1 0, Close 1, UnrefDevice,
      DeviceDisconnected] \<and>
   log (disconnectFromDevice (disconnectFromDevice connected_scope)) =
     [RefDevice, Open 1, ClaimInterface 1 0, ReleaseInterface 1 0, Close 1, UnrefDevice,
      DeviceDisconnected, UnrefDevice, DeviceDisconnected] \<and>
   count_list (log (disconnectFromDevice connected_scope)) DeviceDisconnected = 1 \<and>
   count_list (log (disconnectFromDevice (disconnectFromDevice connected_scope)))
     DeviceDisconnected = 2"
proof -
  have one: "log (disconnectFromDevice connected_scope) =
     [RefDevice, Open 1, ClaimInterface 1 0, ReleaseInterface 1 0, Close 1, UnrefDevice,
      DeviceDisconnected]"
    by (simp add: disconnect_fields disconnect_events_def close_events_def connected_scope_def
        example_scope_def ScopeDevice_real_def)
  have two: "log (disconnectFromDevice (disconnectFromDevice connected_scope)) =
     [RefDevice, Open 1, ClaimInterface 1 0, ReleaseInterface 1 0, Close 1, UnrefDevice,
      DeviceDisconnected, UnrefDevice, DeviceDisconnected]"
    by (simp add: disconnect_fields disconnect_events_def close_events_def connected_scope_def
        example_scope_def ScopeDevice_real_def)
  have "disconnectFromDevice (disconnectFromDevice connected_scope) \<noteq>
     disconnectFromDevice connected_scope"
  proof
    assume "disconnectFromDevice (disconnectFromDevice connected_scope) =
      disconnectFromDevice connected_scope"
    then have "log (disconnectFromDevice (disconnectFromDevice connected_scope)) =
      log (disconnectFromDevice connected_scope)"
      by simp
    then show False
      by (simp add: one two)
  qed
  then show ?thesis
    by (simp add: one two)
qed

subsection \<open>The invariant of the class\<close>

text \<open>
  The constructors establish the invariant, and closing and the transfers keep it.
\<close>

lemma inv_constructors:
  "ScopeDevice_inv (ScopeDevice_real win m dev iteration)"
  "ScopeDevice_inv (ScopeDevice_demo win m d iteration)"
  by (simp_all add: ScopeDevice_inv_def ScopeDevice_real_def ScopeDevice_demo_def)

lemma inv_disconnect: "ScopeDevice_inv s \<Longrightarrow> ScopeDevice_inv (disconnectFromDevice s)"
  by (auto simp: ScopeDevice_inv_def disconnect_fields)

lemma inv_libusb_call: "ScopeDevice_inv (libusb_call usb call s) = ScopeDevice_inv s"
  by (simp add: ScopeDevice_inv_def libusb_call_def emit_def)

lemma inv_control_attempts:
  assumes ret: "control_attempts usb call attempts attempt errorCode s = Some y"
  shows "ScopeDevice_inv s \<longrightarrow> ScopeDevice_inv (fst y)"
proof (rule control_attempts.raw_induct
    [where P = "\<lambda>usb call attempts attempt errorCode s y.
       ScopeDevice_inv s \<longrightarrow> ScopeDevice_inv (fst y)", OF _ ret], goal_cases)
  case (1 f usb call attempts attempt errorCode s y)
  show ?case
  proof (cases "(attempt < attempts \<or> attempts = - 1) \<and> errorCode = LIBUSB_ERROR_TIMEOUT")
    case True
    with 1(2) have "f usb call attempts (attempt + 1) (rc (usb (ncalls s)))
        (libusb_call usb call s) = Some y"
      by simp
    from 1(1) [OF this] show ?thesis
      by (simp add: inv_libusb_call)
  next
    case False
    with 1(2) show ?thesis by auto
  qed
qed

lemma inv_bulk_attempts:
  assumes ret: "bulk_attempts usb call attempts attempt errorCode transferred s = Some y"
  shows "ScopeDevice_inv s \<longrightarrow> ScopeDevice_inv (fst y)"
proof (rule bulk_attempts.raw_induct
    [where P = "\<lambda>usb call attempts attempt errorCode transferred s y.
       ScopeDevice_inv s \<longrightarrow> ScopeDevice_inv (fst y)", OF _ ret], goal_cases)
  case (1 f usb call attempts attempt errorCode transferred s y)
  show ?case
  proof (cases "(attempt < attempts \<or> attempts = - 1) \<and> errorCode = LIBUSB_ERROR_TIMEOUT")
    case True
    with 1(2) have "f usb call attempts (attempt + 1) (rc (usb (ncalls s)))
        (xferred (usb (ncalls s))) (libusb_call usb call s) = Some y"
      by simp
    from 1(1) [OF this] show ?thesis
      by (simp add: inv_libusb_call)
  next
    case False
    with 1(2) show ?thesis by auto
  qed
qed

lemma inv_controlTransfer:
  assumes "controlTransfer defs usb type request len val index attempts s = Some (s', r)"
    and "ScopeDevice_inv s"
  shows "ScopeDevice_inv s'"
  using assms
  by (auto simp: controlTransfer_def inv_disconnect split: if_splits Option.bind_splits
      dest!: inv_control_attempts)

lemma inv_bulkTransfer:
  assumes "bulkTransfer usb ep data len attempts timeout s = Some (s', r)"
    and "ScopeDevice_inv s"
  shows "ScopeDevice_inv s'"
  using assms
  by (auto simp: bulkTransfer_def inv_disconnect Let_def split: if_splits Option.bind_splits
      dest!: inv_bulk_attempts)

lemma inv_chunk_loop:
  assumes ret: "chunk_loop defs usb len attempts packet received retCode s = Some y"
  shows "ScopeDevice_inv s \<longrightarrow> ScopeDevice_inv (fst y)"
proof (rule chunk_loop.raw_induct
    [where P = "\<lambda>defs usb len attempts packet received retCode s y.
       ScopeDevice_inv s \<longrightarrow> ScopeDevice_inv (fst y)", OF _ ret], goal_cases)
  case (1 f defs usb len attempts packet received retCode s y)
  show ?case
  proof
    assume inv: "ScopeDevice_inv s"
    show "ScopeDevice_inv (fst y)"
    proof (cases "received < len \<and> retCode = sint packetLength \<and> \<not> hasStopped s")
      case False
      with 1(2) inv show ?thesis by (auto split: if_splits)
    next
      case True
      with 1(2) obtain s1 r1 where
        bt: "bulkTransfer usb (HANTEK_EP_IN defs) (packet * packetLength)
               (min (len - received) packetLength) attempts (HANTEK_TIMEOUT_MULTI defs * 10) s
             = Some (s1, r1)"
        and rec: "f defs usb len attempts (packet + 1)
                 (if r1 > 0 then received + word_of_int r1 else received) r1 s1 = Some y"
        by (auto split: Option.bind_splits)
      from inv_bulkTransfer [OF bt inv] 1(1) [OF rec] show ?thesis by simp
    qed
  qed
qed

lemma inv_bulkReadMulti:
  assumes "bulkReadMulti defs usb len captureSmallBlocks received0 attempts s =
           Some (Inr (s', r, received))"
    and "ScopeDevice_inv s"
  shows "ScopeDevice_inv s'"
proof (cases "handle s = None \<or> disconnected s")
  case True
  with assms show ?thesis by (simp add: bulkReadMulti_def)
next
  case conn: False
  show ?thesis
  proof (cases captureSmallBlocks)
    case True
    with conn assms(1) obtain y where
      "chunk_loop defs usb len attempts 0 0 (sint packetLength) s = Some y" "s' = fst y"
      by (auto simp: bulkReadMulti_def split: Option.bind_splits)
    with inv_chunk_loop assms(2) show ?thesis by blast
  next
    case False
    show ?thesis
    proof (cases "hasStopped s \<or> inPacketLength s = 0")
      case True
      with conn False assms show ?thesis by (auto simp: bulkReadMulti_def split: if_splits)
    next
      case go: False
      with conn False assms(1) obtain s1 where
        "bulkTransfer usb (HANTEK_EP_IN defs) 0 len attempts
           (bulk_timeout defs len (inPacketLength s)) s = Some (s1, r)"
        "s' = s1\<lparr>stopTransfer := False\<rparr>"
        by (auto simp: bulkReadMulti_def split: Option.bind_splits)
      with inv_bulkTransfer assms(2) have "ScopeDevice_inv s1" by blast
      with \<open>s' = s1\<lparr>stopTransfer := False\<rparr>\<close> show ?thesis
        by (simp add: ScopeDevice_inv_def)
    qed
  qed
qed

subsection \<open>The timeout of the bulk mode\<close>

lemma unat_bulk_timeout:
  assumes "unat (HANTEK_TIMEOUT_MULTI defs) * unat len < 2 ^ 32"
  shows "unat (bulk_timeout defs len p) = unat (HANTEK_TIMEOUT_MULTI defs) * unat len div unat p"
proof -
  have "unat (HANTEK_TIMEOUT_MULTI defs * len) = unat (HANTEK_TIMEOUT_MULTI defs) * unat len"
    using assms by (simp add: unat_mult_lem [symmetric])
  then show ?thesis
    by (simp add: bulk_timeout_def unat_div)
qed

text \<open>
  C9, as amended. For a packet size that is not 0 and lengths \<open>L1 < L2\<close> whose product
  with \<open>HANTEK_TIMEOUT_MULTI\<close> fits 32 bits, the timeout of \<open>L1\<close> is at most the
  timeout of \<open>L2\<close>, and it is less when the two products differ by at least the packet
  size.
\<close>

theorem bulk_timeout_monotone:
  assumes p: "p \<noteq> 0"
    and less: "L1 < L2"
    and fits: "unat (HANTEK_TIMEOUT_MULTI defs) * unat L2 < 2 ^ 32"
  shows "bulk_timeout defs L1 p \<le> bulk_timeout defs L2 p \<and>
         (unat (HANTEK_TIMEOUT_MULTI defs) * unat L1 + unat p
            \<le> unat (HANTEK_TIMEOUT_MULTI defs) * unat L2 \<longrightarrow>
          bulk_timeout defs L1 p < bulk_timeout defs L2 p)"
proof (intro conjI impI)
  let ?M = "unat (HANTEK_TIMEOUT_MULTI defs)"
  have l: "unat L1 < unat L2"
    using less by (simp add: word_less_nat_alt)
  then have le: "?M * unat L1 \<le> ?M * unat L2"
    by simp
  from le fits have fits1: "?M * unat L1 < 2 ^ 32"
    by (rule le_less_trans)
  have pos: "unat p \<noteq> 0"
    using p by (simp add: unat_eq_0)
  show "bulk_timeout defs L1 p \<le> bulk_timeout defs L2 p"
    using le by (simp add: word_le_nat_alt unat_bulk_timeout [OF fits] unat_bulk_timeout [OF fits1]
        div_le_mono)
  assume far: "?M * unat L1 + unat p \<le> ?M * unat L2"
  have "(?M * unat L1 + unat p) div unat p = ?M * unat L1 div unat p + 1"
    by (rule div_add_self2 [OF pos])
  then have "?M * unat L1 div unat p < (?M * unat L1 + unat p) div unat p"
    by linarith
  also have "\<dots> \<le> ?M * unat L2 div unat p"
    using far by (rule div_le_mono)
  finally show "bulk_timeout defs L1 p < bulk_timeout defs L2 p"
    by (simp add: word_less_nat_alt unat_bulk_timeout [OF fits] unat_bulk_timeout [OF fits1])
qed

theorem bulk_timeout_monotone_witness:
  "bulk_timeout example_defs 1024 512 \<le> bulk_timeout example_defs 2048 512 \<and>
   bulk_timeout example_defs 1024 512 < bulk_timeout example_defs 2048 512"
  using bulk_timeout_monotone [of 512 1024 2048 example_defs]
  by (simp add: example_defs_def)

text \<open>
  The division rounds down: a length whose product with the macro is below the packet
  size gets the timeout 0, whatever the value of the macro.
\<close>

lemma bulk_timeout_zero:
  assumes "unat (HANTEK_TIMEOUT_MULTI defs) * unat len < unat p"
  shows "bulk_timeout defs len p = 0"
proof -
  have "unat p < 2 ^ 32"
    using unsigned_less [of p] by simp
  with assms have fits: "unat (HANTEK_TIMEOUT_MULTI defs) * unat len < 2 ^ 32"
    by linarith
  have "unat (bulk_timeout defs len p) = 0"
    using assms by (simp add: unat_bulk_timeout [OF fits])
  then show ?thesis
    by (simp add: unat_eq_0)
qed

text \<open>
  C9 as stated fails: with the macro at 100 (as with every value below 256) and packets
  of 512 bytes, the lengths 1 and 2 both get the timeout 0.
\<close>

theorem bulk_timeout_not_strict:
  "\<not> bulk_timeout example_defs 1 512 < bulk_timeout example_defs 2 512"
  by (simp add: bulk_timeout_def example_defs_def)

subsection \<open>The loop over the chunks\<close>

lemma sint_packetLength: "sint packetLength = 39936"
  by (simp add: packetLength_def)

lemma unat_packetLength: "unat packetLength = 39936"
  by (simp add: packetLength_def)

lemma chunk_received_less:
  assumes "n * 39936 < unat (len :: 32 word)"
  shows "(of_nat n * packetLength :: 32 word) < len"
    and "unat (of_nat n * packetLength :: 32 word) = n * 39936"
proof -
  have "unat len < 2 ^ 32"
    using unsigned_less [of len] by simp
  with assms have small: "n * 39936 < 2 ^ 32"
    by linarith
  have small': "n * 39936 < 2 ^ LENGTH(32)"
    using small by simp
  have "(of_nat (n * 39936) :: 32 word) = of_nat n * packetLength"
    by (simp add: packetLength_def)
  from of_nat_inverse [OF this small']
  show u: "unat (of_nat n * packetLength :: 32 word) = n * 39936" .
  show "(of_nat n * packetLength :: 32 word) < len"
    using assms by (simp add: word_less_nat_alt u)
qed

lemma chunk_loop_done:
  "\<not> (received < len \<and> retCode = sint packetLength) \<Longrightarrow>
   chunk_loop defs usb len attempts packet received retCode s = Some (s, retCode, received)"
  by (subst chunk_loop.simps) auto

lemma chunk_loop_stopped:
  "stopTransfer s \<Longrightarrow>
   chunk_loop defs usb len attempts packet received retCode s = Some (s, retCode, received)"
  by (subst chunk_loop.simps) (auto simp: hasStopped_def)

lemma chunk_loop_step:
  assumes "received < len" "\<not> stopTransfer s"
    and "bulkTransfer usb (HANTEK_EP_IN defs) (packet * packetLength)
           (min (len - received) packetLength) attempts (HANTEK_TIMEOUT_MULTI defs * 10) s
         = Some (s1, r1)"
  shows "chunk_loop defs usb len attempts packet received (sint packetLength) s =
         chunk_loop defs usb len attempts (packet + 1)
           (if r1 > 0 then received + word_of_int r1 else received) r1 s1"
  using assms by (subst chunk_loop.simps) (simp add: hasStopped_def)

lemma chunk_loop_last:
  assumes "received < len" "\<not> stopTransfer s"
    and "bulkTransfer usb (HANTEK_EP_IN defs) (packet * packetLength)
           (min (len - received) packetLength) attempts (HANTEK_TIMEOUT_MULTI defs * 10) s
         = Some (s1, r1)"
    and "r1 \<noteq> sint packetLength"
  shows "chunk_loop defs usb len attempts packet received (sint packetLength) s =
         Some (s1, r1, if r1 > 0 then received + word_of_int r1 else received)"
  using assms by (simp add: chunk_loop_step chunk_loop_done)


lemma after_chunks_frame:
  "handle (after_chunks defs usb len n s) = handle s"
  "device (after_chunks defs usb len n s) = device s"
  "disconnected (after_chunks defs usb len n s) = disconnected s"
  "ncalls (after_chunks defs usb len n s) = ncalls s + n"
  "log (after_chunks defs usb len n s) = log s @ map (chunk_call defs len) [0..<n]"
  "stopTransfer (after_chunks defs usb len n s) =
     (stopTransfer s \<or> (\<exists>k<n. stop_request (usb (ncalls s + k))))"
  "after_chunks defs usb len 0 s = s"
  by (auto simp: after_chunks_def)

lemma after_chunks_Suc:
  "libusb_call usb (chunk_call defs len n) (after_chunks defs usb len n s) =
   after_chunks defs usb len (Suc n) s"
proof -
  have "(\<exists>k<Suc n. stop_request (usb (ncalls s + k))) =
        ((\<exists>k<n. stop_request (usb (ncalls s + k))) \<or> stop_request (usb (ncalls s + n)))"
    by (auto simp: less_Suc_eq)
  then show ?thesis
    by (simp add: after_chunks_def libusb_call_def emit_def disj_assoc Bex_def)
qed

lemma success_codes:
  "LIBUSB_SUCCESS \<noteq> LIBUSB_ERROR_TIMEOUT"
  "LIBUSB_SUCCESS \<noteq> LIBUSB_ERROR_NO_DEVICE"
  "\<not> LIBUSB_SUCCESS < 0"
  by (simp_all add: LIBUSB_SUCCESS_def LIBUSB_ERROR_TIMEOUT_def LIBUSB_ERROR_NO_DEVICE_def)

text \<open>A bulk transfer whose first reply is not a timeout.\<close>

lemma bulkTransfer_first:
  assumes opened: "handle s \<noteq> None"
    and reply: "rc (usb (ncalls s)) \<noteq> LIBUSB_ERROR_TIMEOUT"
    and att: "0 < attempts \<or> attempts = - 1"
  shows "bulkTransfer usb ep data len attempts timeout s =
         Some (if rc (usb (ncalls s)) = LIBUSB_ERROR_NO_DEVICE
               then disconnectFromDevice (libusb_call usb (BulkTransfer ep data (sint len) timeout) s)
               else libusb_call usb (BulkTransfer ep data (sint len) timeout) s,
               if rc (usb (ncalls s)) < 0 then rc (usb (ncalls s))
               else xferred (usb (ncalls s)))"
proof -
  have tmo: "\<forall>k<0. rc (usb (ncalls s + k)) = LIBUSB_ERROR_TIMEOUT"
    by simp
  have last: "rc (usb (ncalls s + 0)) \<noteq> LIBUSB_ERROR_TIMEOUT"
    using reply by simp
  have bound: "int 0 < attempts \<or> attempts = - 1"
    using att by simp
  from bulkTransfer_run [OF opened tmo last bound, of ep data len timeout]
  show ?thesis by (simp add: Let_def)
qed

lemma chunk_loop_full:
  assumes opened: "handle s \<noteq> None" and nostop: "\<not> stopTransfer s"
    and att: "0 < attempts \<or> attempts = - 1"
    and full: "\<forall>k<n. rc (usb (ncalls s + k)) = LIBUSB_SUCCESS \<and>
                     xferred (usb (ncalls s + k)) = sint packetLength"
    and quiet: "\<forall>k. Suc k < n \<longrightarrow> \<not> stop_request (usb (ncalls s + k))"
    and fits: "n \<noteq> 0 \<longrightarrow> (n - 1) * 39936 < unat len"
  shows "chunk_loop defs usb len attempts 0 0 (sint packetLength) s =
         chunk_loop defs usb len attempts (of_nat n) (of_nat n * packetLength)
           (sint packetLength) (after_chunks defs usb len n s)"
  using full quiet fits
proof (induction n)
  case 0
  show ?case by (simp add: after_chunks_frame)
next
  case (Suc n)
  let ?sn = "after_chunks defs usb len n s"
  let ?received = "of_nat n * packetLength :: 32 word"
  have full_n: "\<forall>k<n. rc (usb (ncalls s + k)) = LIBUSB_SUCCESS \<and>
                     xferred (usb (ncalls s + k)) = sint packetLength"
    using Suc.prems(1) by simp
  have quiet_n: "\<forall>k. Suc k < n \<longrightarrow> \<not> stop_request (usb (ncalls s + k))"
    using Suc.prems(2) by simp
  have room: "n * 39936 < unat len"
    using Suc.prems(3) by simp
  then have fits_n: "n \<noteq> 0 \<longrightarrow> (n - 1) * 39936 < unat len"
    by (cases n) simp_all
  have reply: "rc (usb (ncalls s + n)) = LIBUSB_SUCCESS"
       "xferred (usb (ncalls s + n)) = sint packetLength"
    using Suc.prems(1) by simp_all
  have nostop_n: "\<not> stopTransfer ?sn"
    using nostop Suc.prems(2) by (simp add: after_chunks_frame)
  have less: "?received < len"
    by (rule chunk_received_less(1) [OF room])
  have "bulkTransfer usb (HANTEK_EP_IN defs) (of_nat n * packetLength)
           (min (len - ?received) packetLength) attempts (HANTEK_TIMEOUT_MULTI defs * 10) ?sn
         = Some (libusb_call usb (chunk_call defs len n) ?sn, sint packetLength)"
    by (subst bulkTransfer_first)
      (simp_all add: after_chunks_frame opened att reply success_codes chunk_call_def)
  from chunk_loop_step [OF less nostop_n this]
  have "chunk_loop defs usb len attempts (of_nat n) ?received (sint packetLength) ?sn =
        chunk_loop defs usb len attempts (of_nat n + 1) (?received + packetLength)
          (sint packetLength) (after_chunks defs usb len (Suc n) s)"
    by (simp add: sint_packetLength after_chunks_Suc) (simp add: packetLength_def)
  with Suc.IH [OF full_n quiet_n fits_n] show ?case
    by (simp add: algebra_simps)
qed


subsection \<open>A failed transfer in bulkReadMulti\<close>

lemma chunked_error:
  assumes opened: "handle s \<noteq> None" and conn: "\<not> disconnected s"
    and nostop: "\<not> stopTransfer s"
    and att: "n \<noteq> 0 \<longrightarrow> 0 < attempts \<or> attempts = - 1"
    and full: "\<forall>k<n. rc (usb (ncalls s + k)) = LIBUSB_SUCCESS \<and>
                     xferred (usb (ncalls s + k)) = sint packetLength"
    and quiet: "\<forall>k<n. \<not> stop_request (usb (ncalls s + k))"
    and room: "n * 39936 < unat len"
    and bt: "bulkTransfer usb (HANTEK_EP_IN defs) (of_nat n * packetLength)
               (min (len - of_nat n * packetLength) packetLength) attempts
               (HANTEK_TIMEOUT_MULTI defs * 10) (after_chunks defs usb len n s) = Some (s1, e)"
    and neg: "e < 0"
  shows "bulkReadMulti defs usb len True rcvd attempts s =
         Some (Inr (s1, if n = 0 then e else sint (of_nat n * packetLength :: 32 word),
                    of_nat n * packetLength))"
proof -
  let ?sn = "after_chunks defs usb len n s"
  let ?received = "of_nat n * packetLength :: 32 word"
  have loop: "chunk_loop defs usb len attempts 0 0 (sint packetLength) s =
        chunk_loop defs usb len attempts (of_nat n) ?received (sint packetLength) ?sn"
  proof (cases "n = 0")
    case True
    then show ?thesis by (simp add: after_chunks_frame)
  next
    case False
    with att have att': "0 < attempts \<or> attempts = - 1" by simp
    have quiet': "\<forall>k. Suc k < n \<longrightarrow> \<not> stop_request (usb (ncalls s + k))"
      using quiet by simp
    have fits: "n \<noteq> 0 \<longrightarrow> (n - 1) * 39936 < unat len"
      using room by (cases n) simp_all
    show ?thesis
      by (rule chunk_loop_full [OF opened nostop att' full quiet' fits])
  qed
  have nostop_n: "\<not> stopTransfer ?sn"
    using nostop quiet by (simp add: after_chunks_frame)
  have less: "?received < len"
    by (rule chunk_received_less(1) [OF room])
  have differs: "e \<noteq> sint packetLength"
    using neg by (simp add: sint_packetLength)
  have "chunk_loop defs usb len attempts (of_nat n) ?received (sint packetLength) ?sn =
        Some (s1, e, ?received)"
    using chunk_loop_last [OF less nostop_n bt differs] neg by simp
  with loop have result: "chunk_loop defs usb len attempts 0 0 (sint packetLength) s =
        Some (s1, e, ?received)"
    by simp
  have "unat ?received = n * 39936"
    by (rule chunk_received_less(2) [OF room])
  then have "(0 < ?received) = (n \<noteq> 0)"
    by (simp add: word_less_nat_alt)
  then show ?thesis
    using opened conn by (auto simp: bulkReadMulti_def result)
qed

text \<open>
  C4, as amended. On a connected device whose stop flag is not set, when the transfer
  that \<open>bulkReadMulti\<close> makes returns a negative code \<open>e\<close>: in the bulk mode \<open>received\<close>
  is 0 and \<open>e\<close> is returned; in the chunked mode, when the transfer of the first chunk
  fails (\<open>n = 0\<close>), \<open>received\<close> is 0 and \<open>e\<close> is returned, and when it fails after
  \<open>n > 0\<close> full chunks, \<open>received\<close> is the \<open>n\<close> chunks received so far, which is not
  0, and the value returned is \<open>int(received)\<close>, not \<open>e\<close>.
\<close>

theorem bulkReadMulti_error_result:
  assumes opened: "handle s \<noteq> None" and conn: "\<not> disconnected s"
    and nostop: "\<not> stopTransfer s"
    and neg: "e < 0"
  shows "(inPacketLength s \<noteq> 0 \<and>
          bulkTransfer usb (HANTEK_EP_IN defs) 0 len attempts
            (bulk_timeout defs len (inPacketLength s)) s = Some (s1, e) \<longrightarrow>
            bulkReadMulti defs usb len False rcvd attempts s =
              Some (Inr (s1\<lparr>stopTransfer := False\<rparr>, e, 0))) \<and>
         ((n \<noteq> 0 \<longrightarrow> 0 < attempts \<or> attempts = - 1) \<and>
          (\<forall>k<n. rc (usb (ncalls s + k)) = LIBUSB_SUCCESS \<and>
                 xferred (usb (ncalls s + k)) = 512 * 78 \<and>
                 \<not> stop_request (usb (ncalls s + k))) \<and>
          n * (512 * 78) < unat len \<and>
          bulkTransfer usb (HANTEK_EP_IN defs) (of_nat n * packetLength)
            (min (len - of_nat n * packetLength) packetLength) attempts
            (HANTEK_TIMEOUT_MULTI defs * 10) (after_chunks defs usb len n s) = Some (s1, e) \<longrightarrow>
            bulkReadMulti defs usb len True rcvd attempts s =
              Some (Inr (s1, if n = 0 then e else sint (of_nat n * packetLength :: 32 word),
                         of_nat n * packetLength)) \<and>
            (n \<noteq> 0 \<longrightarrow> (of_nat n * packetLength :: 32 word) \<noteq> 0))"
proof (intro conjI impI)
  assume "inPacketLength s \<noteq> 0 \<and>
          bulkTransfer usb (HANTEK_EP_IN defs) 0 len attempts
            (bulk_timeout defs len (inPacketLength s)) s = Some (s1, e)"
  then show "bulkReadMulti defs usb len False rcvd attempts s =
              Some (Inr (s1\<lparr>stopTransfer := False\<rparr>, e, 0))"
    using opened conn nostop neg by (auto simp: bulkReadMulti_def hasStopped_def)
next
  assume a: "(n \<noteq> 0 \<longrightarrow> 0 < attempts \<or> attempts = - 1) \<and>
          (\<forall>k<n. rc (usb (ncalls s + k)) = LIBUSB_SUCCESS \<and>
                 xferred (usb (ncalls s + k)) = 512 * 78 \<and>
                 \<not> stop_request (usb (ncalls s + k))) \<and>
          n * (512 * 78) < unat len \<and>
          bulkTransfer usb (HANTEK_EP_IN defs) (of_nat n * packetLength)
            (min (len - of_nat n * packetLength) packetLength) attempts
            (HANTEK_TIMEOUT_MULTI defs * 10) (after_chunks defs usb len n s) = Some (s1, e)"
  then have att: "n \<noteq> 0 \<longrightarrow> 0 < attempts \<or> attempts = - 1"
    and full: "\<forall>k<n. rc (usb (ncalls s + k)) = LIBUSB_SUCCESS \<and>
                     xferred (usb (ncalls s + k)) = sint packetLength"
    and quiet: "\<forall>k<n. \<not> stop_request (usb (ncalls s + k))"
    and room: "n * 39936 < unat len"
    and bt: "bulkTransfer usb (HANTEK_EP_IN defs) (of_nat n * packetLength)
               (min (len - of_nat n * packetLength) packetLength) attempts
               (HANTEK_TIMEOUT_MULTI defs * 10) (after_chunks defs usb len n s) = Some (s1, e)"
    by (simp_all add: sint_packetLength)
  show "bulkReadMulti defs usb len True rcvd attempts s =
              Some (Inr (s1, if n = 0 then e else sint (of_nat n * packetLength :: 32 word),
                         of_nat n * packetLength))"
    by (rule chunked_error [OF opened conn nostop att full quiet room bt neg])
  {
    assume "n \<noteq> 0"
    moreover have "unat (of_nat n * packetLength :: 32 word) = n * 39936"
      by (rule chunk_received_less(2) [OF room])
    ultimately show "(of_nat n * packetLength :: 32 word) \<noteq> 0"
      by (auto simp: unat_eq_0 [symmetric] simp del: unat_eq_0)
  }
qed


lemma chunk_then_gone_transfer:
  "bulkTransfer usb_chunk_then_gone (HANTEK_EP_IN example_defs) (of_nat 1 * packetLength)
     (min (2 * packetLength - of_nat 1 * packetLength) packetLength) 1
     (HANTEK_TIMEOUT_MULTI example_defs * 10)
     (after_chunks example_defs usb_chunk_then_gone (2 * packetLength) 1 connected_scope) =
   Some (disconnectFromDevice (libusb_call usb_chunk_then_gone
           (chunk_call example_defs (2 * packetLength) 1)
           (after_chunks example_defs usb_chunk_then_gone (2 * packetLength) 1 connected_scope)),
         LIBUSB_ERROR_NO_DEVICE)"
  by (subst bulkTransfer_first)
    (simp_all add: after_chunks_frame example_facts usb_chunk_then_gone_def reply_no_device_def
      error_codes chunk_call_def)

text \<open>
  C4 as stated fails: a chunked read of two chunks whose first chunk is full and whose
  second transfer loses the device leaves 39936 in \<open>received\<close> and returns 39936, not
  the error code.
\<close>

theorem chunked_error_after_data:
  "map_option (map_sum id snd)
     (bulkReadMulti example_defs usb_chunk_then_gone (2 * packetLength) True 0 1 connected_scope) =
   Some (Inr (39936, 39936))"
proof -
  have e: "bulkReadMulti example_defs usb_chunk_then_gone (2 * packetLength) True 0 1 connected_scope =
      Some (Inr (disconnectFromDevice (libusb_call usb_chunk_then_gone
           (chunk_call example_defs (2 * packetLength) 1)
           (after_chunks example_defs usb_chunk_then_gone (2 * packetLength) 1 connected_scope)),
         if (1::nat) = 0 then LIBUSB_ERROR_NO_DEVICE else sint (of_nat 1 * packetLength :: 32 word),
         of_nat 1 * packetLength))"
    by (rule chunked_error [OF example_facts(3) example_facts(4) _ _ _ _ _ chunk_then_gone_transfer])
      (simp_all add: connected_scope_def example_scope_def ScopeDevice_real_def
        usb_chunk_then_gone_def reply_bytes_def sint_packetLength unat_packetLength
        unat_mult_lem [THEN iffD1] error_codes)
  show ?thesis
    by (simp add: e sint_packetLength) (simp add: packetLength_def)
qed

theorem bulkReadMulti_error_result_witness:
  "bulkReadMulti example_defs usb_chunk_then_gone (2 * packetLength) True 0 1 connected_scope =
     Some (Inr (disconnectFromDevice (libusb_call usb_chunk_then_gone
           (chunk_call example_defs (2 * packetLength) 1)
           (after_chunks example_defs usb_chunk_then_gone (2 * packetLength) 1 connected_scope)),
         39936, 39936)) \<and>
   bulkReadMulti example_defs (\<lambda>k. reply_no_device) 1024 False 7 1 connected_scope =
     Some (Inr ((disconnectFromDevice (libusb_call (\<lambda>k. reply_no_device)
                   (BulkTransfer 0x86 0 1024 200) connected_scope))\<lparr>stopTransfer := False\<rparr>,
                LIBUSB_ERROR_NO_DEVICE, 0))"
proof -
  have bt: "bulkTransfer (\<lambda>k. reply_no_device) (HANTEK_EP_IN example_defs) 0 1024 1
      (bulk_timeout example_defs 1024 (inPacketLength connected_scope)) connected_scope =
      Some (disconnectFromDevice (libusb_call (\<lambda>k. reply_no_device)
                   (BulkTransfer 0x86 0 1024 200) connected_scope), LIBUSB_ERROR_NO_DEVICE)"
    by (subst bulkTransfer_first)
      (simp_all add: example_facts reply_no_device_def error_codes bulk_timeout_def
        example_defs_def connected_scope_def)
  have st: "\<not> stopTransfer connected_scope" "inPacketLength connected_scope \<noteq> 0"
    by (simp_all add: connected_scope_def example_scope_def ScopeDevice_real_def)
  have room: "1 * (512 * 78) < unat (2 * packetLength)"
    by (simp add: packetLength_def)
  from bulkReadMulti_error_result [OF example_facts(3) example_facts(4) st(1) error_codes(3),
      where usb = usb_chunk_then_gone and defs = example_defs and n = 1
        and len = "2 * packetLength" and attempts = 1 and rcvd = 0
        and ?s1.0 = "disconnectFromDevice (libusb_call usb_chunk_then_gone
           (chunk_call example_defs (2 * packetLength) 1)
           (after_chunks example_defs usb_chunk_then_gone (2 * packetLength) 1 connected_scope))"]
    chunk_then_gone_transfer room
  have "bulkReadMulti example_defs usb_chunk_then_gone (2 * packetLength) True 0 1 connected_scope =
     Some (Inr (disconnectFromDevice (libusb_call usb_chunk_then_gone
           (chunk_call example_defs (2 * packetLength) 1)
           (after_chunks example_defs usb_chunk_then_gone (2 * packetLength) 1 connected_scope)),
         39936, 39936))"
    by (simp add: example_facts usb_chunk_then_gone_def reply_bytes_def LIBUSB_SUCCESS_def
        sint_packetLength) (simp add: packetLength_def)
  moreover
  from bulkReadMulti_error_result [OF example_facts(3) example_facts(4) st(1) error_codes(3),
      where usb = "\<lambda>k. reply_no_device" and defs = example_defs and n = 0
        and len = 1024 and attempts = 1 and rcvd = 7
        and ?s1.0 = "disconnectFromDevice (libusb_call (\<lambda>k. reply_no_device)
                   (BulkTransfer 0x86 0 1024 200) connected_scope)"] bt st(2)
  have "bulkReadMulti example_defs (\<lambda>k. reply_no_device) 1024 False 7 1 connected_scope =
     Some (Inr ((disconnectFromDevice (libusb_call (\<lambda>k. reply_no_device)
                   (BulkTransfer 0x86 0 1024 200) connected_scope))\<lparr>stopTransfer := False\<rparr>,
                LIBUSB_ERROR_NO_DEVICE, 0))"
    by blast
  ultimately show ?thesis by blast
qed

subsection \<open>A chunked read of three chunks\<close>

text \<open>
  C3. The chunk size is \<open>512 * 78\<close>. On a connected device whose stop flag is not set, a
  chunked read of three chunks whose transfers each give a full chunk, with no stop
  request before the third, makes three transfers and reports three chunks in
  \<open>received\<close> and as its result. When the stop flag is set during the first transfer,
  which gives a full chunk, the read makes that one transfer only and reports one chunk.
\<close>

theorem chunked_read_three_chunks:
  assumes opened: "handle s \<noteq> None" and conn: "\<not> disconnected s"
    and nostop: "\<not> stopTransfer s"
    and att: "0 < attempts \<or> attempts = - 1"
  shows "((\<forall>k<3. rc (usb (ncalls s + k)) = LIBUSB_SUCCESS \<and>
                 xferred (usb (ncalls s + k)) = 512 * 78) \<and>
          \<not> stop_request (usb (ncalls s)) \<and> \<not> stop_request (usb (ncalls s + 1)) \<longrightarrow>
            bulkReadMulti defs usb (3 * packetLength) True rcvd attempts s =
              Some (Inr (after_chunks defs usb (3 * packetLength) 3 s, 3 * (512 * 78),
                         3 * packetLength)) \<and>
            ncalls (after_chunks defs usb (3 * packetLength) 3 s) = ncalls s + 3) \<and>
         (rc (usb (ncalls s)) = LIBUSB_SUCCESS \<and> xferred (usb (ncalls s)) = 512 * 78 \<and>
          stop_request (usb (ncalls s)) \<longrightarrow>
            bulkReadMulti defs usb (3 * packetLength) True rcvd attempts s =
              Some (Inr (after_chunks defs usb (3 * packetLength) 1 s, 512 * 78, packetLength)) \<and>
            ncalls (after_chunks defs usb (3 * packetLength) 1 s) = ncalls s + 1 \<and>
            log (after_chunks defs usb (3 * packetLength) 1 s) =
              log s @ [chunk_call defs (3 * packetLength) 0])"
proof (intro conjI impI)
  let ?len = "3 * packetLength :: 32 word"
  have len: "unat ?len = 119808"
    by (simp add: packetLength_def)
  {
    assume a: "(\<forall>k<3. rc (usb (ncalls s + k)) = LIBUSB_SUCCESS \<and>
                 xferred (usb (ncalls s + k)) = 512 * 78) \<and>
          \<not> stop_request (usb (ncalls s)) \<and> \<not> stop_request (usb (ncalls s + 1))"
    then have full: "\<forall>k<3. rc (usb (ncalls s + k)) = LIBUSB_SUCCESS \<and>
                     xferred (usb (ncalls s + k)) = sint packetLength"
      by (simp add: sint_packetLength)
    have quiet: "\<forall>k. Suc k < 3 \<longrightarrow> \<not> stop_request (usb (ncalls s + k))"
    proof (intro allI impI)
      fix k assume "Suc k < 3"
      then have "k = 0 \<or> k = 1" by auto
      with a show "\<not> stop_request (usb (ncalls s + k))" by auto
    qed
    have fits: "(3::nat) \<noteq> 0 \<longrightarrow> (3 - 1) * 39936 < unat ?len"
      by (simp add: len)
    have "chunk_loop defs usb ?len attempts 0 0 (sint packetLength) s =
          chunk_loop defs usb ?len attempts (of_nat 3) (of_nat 3 * packetLength)
            (sint packetLength) (after_chunks defs usb ?len 3 s)"
      by (rule chunk_loop_full [OF opened nostop att full quiet fits])
    also have "\<dots> = Some (after_chunks defs usb ?len 3 s, sint packetLength, ?len)"
      by (subst chunk_loop_done) simp_all
    finally show "bulkReadMulti defs usb ?len True rcvd attempts s =
              Some (Inr (after_chunks defs usb ?len 3 s, 3 * (512 * 78), ?len))"
      using opened conn by (auto simp: bulkReadMulti_def) (simp_all add: packetLength_def)
    show "ncalls (after_chunks defs usb ?len 3 s) = ncalls s + 3"
      by (rule after_chunks_frame)
  }
  {
    assume a: "rc (usb (ncalls s)) = LIBUSB_SUCCESS \<and> xferred (usb (ncalls s)) = 512 * 78 \<and>
          stop_request (usb (ncalls s))"
    then have full: "\<forall>k<1. rc (usb (ncalls s + k)) = LIBUSB_SUCCESS \<and>
                     xferred (usb (ncalls s + k)) = sint packetLength"
      by (simp add: sint_packetLength)
    have quiet: "\<forall>k. Suc k < 1 \<longrightarrow> \<not> stop_request (usb (ncalls s + k))"
      by simp
    have fits: "(1::nat) \<noteq> 0 \<longrightarrow> (1 - 1) * 39936 < unat ?len"
      by (simp add: len)
    have stopped: "stopTransfer (after_chunks defs usb ?len 1 s)"
      using a by (simp add: after_chunks_frame)
    have "chunk_loop defs usb ?len attempts 0 0 (sint packetLength) s =
          chunk_loop defs usb ?len attempts (of_nat 1) (of_nat 1 * packetLength)
            (sint packetLength) (after_chunks defs usb ?len 1 s)"
      by (rule chunk_loop_full [OF opened nostop att full quiet fits])
    also have "\<dots> = Some (after_chunks defs usb ?len 1 s, sint packetLength, packetLength)"
      using stopped by (subst chunk_loop_stopped) simp_all
    finally show "bulkReadMulti defs usb ?len True rcvd attempts s =
              Some (Inr (after_chunks defs usb ?len 1 s, 512 * 78, packetLength))"
      using opened conn by (auto simp: bulkReadMulti_def) (simp_all add: packetLength_def)
    show "ncalls (after_chunks defs usb ?len 1 s) = ncalls s + 1"
      by (rule after_chunks_frame)
    show "log (after_chunks defs usb ?len 1 s) = log s @ [chunk_call defs ?len 0]"
      by (simp add: after_chunks_frame)
  }
qed


theorem chunked_read_three_chunks_witness:
  "map_option (map_sum id snd)
     (bulkReadMulti example_defs (\<lambda>k. reply_bytes 39936) (3 * packetLength) True 0 1
        connected_scope) = Some (Inr (119808, 119808)) \<and>
   map_option (map_sum id snd)
     (bulkReadMulti example_defs (\<lambda>k. (reply_bytes 39936)\<lparr>stop_request := True\<rparr>)
        (3 * packetLength) True 0 1 connected_scope) = Some (Inr (39936, 39936))"
proof -
  have st: "\<not> stopTransfer connected_scope"
    by (simp add: connected_scope_def example_scope_def ScopeDevice_real_def)
  have att: "(0::int) < 1 \<or> (1::int) = - 1"
    by simp
  from chunked_read_three_chunks [OF example_facts(3) example_facts(4) st att,
      of "\<lambda>k. reply_bytes 39936" example_defs 0]
  have "map_option (map_sum id snd)
     (bulkReadMulti example_defs (\<lambda>k. reply_bytes 39936) (3 * packetLength) True 0 1
        connected_scope) = Some (Inr (119808, 119808))"
    by (simp add: reply_bytes_def) (simp add: packetLength_def)
  moreover
  from chunked_read_three_chunks [OF example_facts(3) example_facts(4) st att,
      of "\<lambda>k. (reply_bytes 39936)\<lparr>stop_request := True\<rparr>" example_defs 0]
  have "map_option (map_sum id snd)
     (bulkReadMulti example_defs (\<lambda>k. (reply_bytes 39936)\<lparr>stop_request := True\<rparr>)
        (3 * packetLength) True 0 1 connected_scope) = Some (Inr (39936, 39936))"
    by (simp add: reply_bytes_def) (simp add: packetLength_def)
  ultimately show ?thesis by blast
qed

subsection \<open>connectDevice\<close>

lemma find_interface_first:
  "find_interface defs env h ifs s =
     (case first_vendor_interface ifs of
        None \<Rightarrow> (LIBUSB_ERROR_NOT_FOUND, s)
      | Some d \<Rightarrow> claimInterface defs env h d s)"
proof (induction ifs)
  case Nil
  show ?case by (simp add: first_vendor_interface_def)
next
  case (Cons i ifs)
  show ?case
  proof (cases "altsetting i")
    case Nil
    with Cons.IH show ?thesis by (simp add: first_vendor_interface_def)
  next
    case (Cons d ds)
    with Cons.IH show ?thesis
      by (simp add: first_vendor_interface_def vendor_specific_def)
  qed
qed

lemma endpoints_frame_gen:
  assumes "\<And>s v. f (s\<lparr>outPacketLength := v\<rparr>) = f s"
    and "\<And>s v. f (s\<lparr>inPacketLength := v\<rparr>) = f s"
  shows "f (foldl (endpoint_step defs) s es) = f s"
  by (induction es arbitrary: s) (simp_all add: endpoint_step_def assms)

lemma endpoints_frame:
  "handle (foldl (endpoint_step defs) s es) = handle s"
  "device (foldl (endpoint_step defs) s es) = device s"
  "disconnected (foldl (endpoint_step defs) s es) = disconnected s"
  "realHW (foldl (endpoint_step defs) s es) = realHW s"
  "nInterface (foldl (endpoint_step defs) s es) = nInterface s"
  "log (foldl (endpoint_step defs) s es) = log s"
  by (rule endpoints_frame_gen; simp)+

lemma claimInterface_failed:
  "libusb_claim_interface env < 0 \<Longrightarrow>
   claimInterface defs env h d s = (libusb_claim_interface env, s)"
  by (simp add: claimInterface_def)

lemma claimInterface_claimed:
  assumes "0 \<le> libusb_claim_interface env"
  shows "fst (claimInterface defs env h d s) = LIBUSB_SUCCESS"
    and "handle (snd (claimInterface defs env h d s)) = handle s"
    and "device (snd (claimInterface defs env h d s)) = device s"
    and "disconnected (snd (claimInterface defs env h d s)) = disconnected s"
    and "realHW (snd (claimInterface defs env h d s)) = realHW s"
    and "nInterface (snd (claimInterface defs env h d s)) = uint (bInterfaceNumber d)"
    and "log (snd (claimInterface defs env h d s)) = log s @ [ClaimInterface h (bInterfaceNumber d)]"
  using assms by (simp_all add: claimInterface_def Let_def endpoints_frame emit_def)


lemma not_connected_disconnected:
  "ScopeDevice_inv s \<Longrightarrow> \<not> isConnected s \<Longrightarrow> disconnected s \<and> realHW s"
  by (auto simp: ScopeDevice_inv_def isConnected_def isDemoDevice_def)

text \<open>
  C5. \<open>connectDevice\<close> fails without a change when \<open>needsFirmware\<close> holds, and otherwise
  succeeds without a change when the device is connected. Otherwise, on an object that
  satisfies the invariant of the class and whose device has a configuration: when
  \<open>libusb_open\<close> fails, or no interface is vendor specific, or the claim of the first
  vendor specific interface fails, the result is false, the device is not connected
  afterwards and the text of the libusb error is an argument of the message; when both
  succeed the handle was opened, then that interface claimed, and the device is connected.
\<close>

theorem connectDevice_result:
  "(needsFirmware s \<longrightarrow> connectDevice defs env msg s = Inr (s, False, msg)) \<and>
   (\<not> needsFirmware s \<and> isConnected s \<longrightarrow> connectDevice defs env msg s = Inr (s, True, msg)) \<and>
   (\<not> needsFirmware s \<and> \<not> isConnected s \<and> ScopeDevice_inv s \<and>
    device s = Some dev \<and> config_descriptor dev = Some cfg \<and> libusb_open env = (oc, h) \<longrightarrow>
      (oc \<noteq> LIBUSB_SUCCESS \<longrightarrow>
         (\<exists>s' m. connectDevice defs env msg s = Inr (s', False, m) \<and>
            \<not> isConnected s' \<and> handle s' = None \<and> log s' = log s \<and>
            ArgString (libusb_strerror env oc) \<in> set (snd m))) \<and>
      (oc = LIBUSB_SUCCESS \<and> first_vendor_interface (interface cfg) = None \<longrightarrow>
         (\<exists>s' m. connectDevice defs env msg s = Inr (s', False, m) \<and>
            \<not> isConnected s' \<and> log s' = log s @ [Open h] \<and>
            ArgString (libusb_strerror env LIBUSB_ERROR_NOT_FOUND) \<in> set (snd m))) \<and>
      (oc = LIBUSB_SUCCESS \<and> first_vendor_interface (interface cfg) = Some d \<and>
       libusb_claim_interface env < 0 \<longrightarrow>
         (\<exists>s' m. connectDevice defs env msg s = Inr (s', False, m) \<and>
            \<not> isConnected s' \<and> log s' = log s @ [Open h] \<and>
            ArgString (libusb_strerror env (libusb_claim_interface env)) \<in> set (snd m))) \<and>
      (oc = LIBUSB_SUCCESS \<and> first_vendor_interface (interface cfg) = Some d \<and>
       0 \<le> libusb_claim_interface env \<longrightarrow>
         (\<exists>s'. connectDevice defs env msg s = Inr (s', True, msg) \<and>
            isConnected s' \<and> handle s' = Some h \<and>
            nInterface s' = uint (bInterfaceNumber d) \<and>
            log s' = log s @ [Open h, ClaimInterface h (bInterfaceNumber d)])))"
proof (intro conjI impI)
  assume "needsFirmware s"
  then show "connectDevice defs env msg s = Inr (s, False, msg)"
    by (simp add: connectDevice_def)
next
  assume "\<not> needsFirmware s \<and> isConnected s"
  then show "connectDevice defs env msg s = Inr (s, True, msg)"
    by (simp add: connectDevice_def)
next
  assume a: "\<not> needsFirmware s \<and> \<not> isConnected s \<and> ScopeDevice_inv s \<and>
    device s = Some dev \<and> config_descriptor dev = Some cfg \<and> libusb_open env = (oc, h)"
  then have dis: "disconnected s" and real: "realHW s"
    using not_connected_disconnected by blast+
  let ?s1 = "(emit (Open h) s)\<lparr>handle := Some h, serialNumber := readUSBdescriptor env\<rparr>"
  have s1: "disconnected ?s1" "realHW ?s1" "log ?s1 = log s @ [Open h]" "handle ?s1 = Some h"
    using dis real by (simp_all add: emit_def)
  {
    assume "oc \<noteq> LIBUSB_SUCCESS"
    with a have "connectDevice defs env msg s =
        Inr (s\<lparr>handle := None\<rparr>, False,
             (translate env ''Couldn't open device: %1'', [ArgString (libusb_strerror env oc)]))"
      by (simp add: connectDevice_def libUsbErrorString_def)
    then show "\<exists>s' m. connectDevice defs env msg s = Inr (s', False, m) \<and>
            \<not> isConnected s' \<and> handle s' = None \<and> log s' = log s \<and>
            ArgString (libusb_strerror env oc) \<in> set (snd m)"
      using real by (simp add: isConnected_def isDemoDevice_def)
  }
  {
    assume b: "oc = LIBUSB_SUCCESS \<and> first_vendor_interface (interface cfg) = None"
    with a have "connectDevice defs env msg s =
        Inr (?s1, False,
             (''%1 (%2:%3)'',
              [ArgString (libusb_strerror env LIBUSB_ERROR_NOT_FOUND),
               ArgNumber (unat (bus_number dev)) 3 10 CHR ''0'',
               ArgNumber (unat (device_address dev)) 3 10 CHR ''0'']))"
      by (simp add: connectDevice_def libUsbErrorString_def find_interface_first
          LIBUSB_ERROR_NOT_FOUND_def LIBUSB_SUCCESS_def)
    then show "\<exists>s' m. connectDevice defs env msg s = Inr (s', False, m) \<and>
            \<not> isConnected s' \<and> log s' = log s @ [Open h] \<and>
            ArgString (libusb_strerror env LIBUSB_ERROR_NOT_FOUND) \<in> set (snd m)"
      using s1 by (simp add: isConnected_def isDemoDevice_def)
  }
  {
    assume b: "oc = LIBUSB_SUCCESS \<and> first_vendor_interface (interface cfg) = Some d \<and>
       libusb_claim_interface env < 0"
    with a have "connectDevice defs env msg s =
        Inr (?s1, False,
             (''%1 (%2:%3)'',
              [ArgString (libusb_strerror env (libusb_claim_interface env)),
               ArgNumber (unat (bus_number dev)) 3 10 CHR ''0'',
               ArgNumber (unat (device_address dev)) 3 10 CHR ''0'']))"
      by (simp add: connectDevice_def libUsbErrorString_def find_interface_first
          claimInterface_failed LIBUSB_SUCCESS_def)
    then show "\<exists>s' m. connectDevice defs env msg s = Inr (s', False, m) \<and>
            \<not> isConnected s' \<and> log s' = log s @ [Open h] \<and>
            ArgString (libusb_strerror env (libusb_claim_interface env)) \<in> set (snd m)"
      using s1 by (simp add: isConnected_def isDemoDevice_def)
  }
  {
    assume b: "oc = LIBUSB_SUCCESS \<and> first_vendor_interface (interface cfg) = Some d \<and>
       0 \<le> libusb_claim_interface env"
    then have ok: "0 \<le> libusb_claim_interface env" by simp
    obtain e2 s2 where c: "claimInterface defs env h d ?s1 = (e2, s2)"
      by (cases "claimInterface defs env h d ?s1")
    note cc = claimInterface_claimed [OF ok, of defs h d ?s1, unfolded c fst_conv snd_conv]
    have s2: "e2 = LIBUSB_SUCCESS" "handle s2 = Some h" "realHW s2"
      "nInterface s2 = uint (bInterfaceNumber d)"
      "log s2 = log s @ [Open h, ClaimInterface h (bInterfaceNumber d)]"
      using cc s1 by simp_all
    from a b have "connectDevice defs env msg s = Inr (s2\<lparr>disconnected := False\<rparr>, True, msg)"
      by (simp add: connectDevice_def find_interface_first c s2(1))
    then show "\<exists>s'. connectDevice defs env msg s = Inr (s', True, msg) \<and>
            isConnected s' \<and> handle s' = Some h \<and>
            nInterface s' = uint (bInterfaceNumber d) \<and>
            log s' = log s @ [Open h, ClaimInterface h (bInterfaceNumber d)]"
      using s2 by (simp add: isConnected_def isDemoDevice_def)
  }
qed

lemma inv_connectDevice:
  assumes "connectDevice defs env msg s = Inr (s', b, m)" and inv: "ScopeDevice_inv s"
  shows "ScopeDevice_inv s'"
proof (cases "needsFirmware s \<or> isConnected s")
  case True
  with assms show ?thesis by (auto simp: connectDevice_def split: if_splits)
next
  case False
  then have nc: "\<not> needsFirmware s" "\<not> isConnected s" by simp_all
  from not_connected_disconnected [OF inv nc(2)] have dis: "disconnected s" "realHW s"
    by simp_all
  with inv have ni: "nInterface s = - 1" "device s \<noteq> None"
    by (auto simp: ScopeDevice_inv_def)
  obtain oc h where op: "libusb_open env = (oc, h)"
    by (cases "libusb_open env")
  let ?s1 = "(emit (Open h) s)\<lparr>handle := Some h, serialNumber := readUSBdescriptor env\<rparr>"
  have inv1: "ScopeDevice_inv ?s1"
    using dis ni by (simp add: ScopeDevice_inv_def emit_def)
  have closed: "ScopeDevice_inv (s\<lparr>handle := None\<rparr>)"
    using dis ni by (simp add: ScopeDevice_inv_def)
  have claimed: "ScopeDevice_inv ((snd (claimInterface defs env h d ?s1))\<lparr>disconnected := False\<rparr>)"
    if "0 \<le> libusb_claim_interface env" for d
    using claimInterface_claimed [OF that, of defs h d ?s1] dis ni
    by (simp add: ScopeDevice_inv_def emit_def)
  have failed: "claimInterface defs env h d ?s1 = (libusb_claim_interface env, ?s1)"
    if "libusb_claim_interface env < 0" for d
    by (rule claimInterface_failed [OF that])
  from ni(2) obtain dev where dev: "device s = Some dev"
    by blast
  show ?thesis
  proof (cases "oc = LIBUSB_SUCCESS")
    case False
    with assms(1) nc op dev have "s' = s\<lparr>handle := None\<rparr>"
      by (simp add: connectDevice_def)
    with closed show ?thesis by simp
  next
    case True
    show ?thesis
    proof (cases "config_descriptor dev")
      case None
      with assms(1) nc op dev True show ?thesis
        by (simp add: connectDevice_def)
    next
      case (Some cfg)
      show ?thesis
      proof (cases "first_vendor_interface (interface cfg)")
        case None
        with assms(1) nc op dev True Some have "s' = ?s1"
          by (simp add: connectDevice_def find_interface_first LIBUSB_ERROR_NOT_FOUND_def
              LIBUSB_SUCCESS_def)
        with inv1 show ?thesis by simp
      next
        case d: (Some d)
        show ?thesis
        proof (cases "libusb_claim_interface env < 0")
          case neg: True
          with assms(1) nc op dev True Some d have "s' = ?s1"
            by (simp add: connectDevice_def find_interface_first failed LIBUSB_SUCCESS_def)
          with inv1 show ?thesis by simp
        next
          case False
          then have ok: "0 \<le> libusb_claim_interface env" by simp
          obtain e2 s2 where c: "claimInterface defs env h d ?s1 = (e2, s2)"
            by (cases "claimInterface defs env h d ?s1")
          from claimInterface_claimed(1) [OF ok, of defs h d ?s1] have e2: "e2 = LIBUSB_SUCCESS"
            by (simp add: c)
          with assms(1) nc op dev True Some d c have "s' = s2\<lparr>disconnected := False\<rparr>"
            by (simp add: connectDevice_def find_interface_first)
          with claimed [OF ok, of d] c show ?thesis by simp
        qed
      qed
    qed
  qed
qed


theorem connectDevice_result_witness:
  "connectDevice example_defs example_env ([], []) example_scope =
     Inr (connected_scope, True, ([], [])) \<and>
   connectDevice example_defs example_env ([], []) connected_scope =
     Inr (connected_scope, True, ([], [])) \<and>
   connectDevice example_defs example_env ([], [])
     (example_scope\<lparr>descriptor := (descriptor example_scope)\<lparr>bcdDevice := 0x0100\<rparr>\<rparr>) =
     Inr (example_scope\<lparr>descriptor := (descriptor example_scope)\<lparr>bcdDevice := 0x0100\<rparr>\<rparr>,
          False, ([], [])) \<and>
   connectDevice example_defs (example_env\<lparr>libusb_open := (- 3, 0)\<rparr>) ([], []) example_scope =
     Inr (example_scope, False, (''Couldn't open device: %1'', [ArgString ''Other error''])) \<and>
   connectDevice example_defs (example_env\<lparr>libusb_claim_interface := - 6\<rparr>) ([], [])
     example_scope =
     Inr (example_scope\<lparr>handle := Some 1, serialNumber := ''0001'', log := [RefDevice, Open 1]\<rparr>,
          False,
          (''%1 (%2:%3)'',
           [ArgString ''Other error'', ArgNumber 1 3 10 CHR ''0'', ArgNumber 5 3 10 CHR ''0'']))"
  using connectDevice_result [where s = example_scope and env = example_env
      and defs = example_defs and msg = "([], [])" and dev = example_device
      and cfg = "\<lparr>interface = [\<lparr>altsetting = [example_interface]\<rparr>]\<rparr>" and oc = 0 and h = 1
      and d = example_interface]
  by (simp add: connectDevice_def example_scope_def connected_scope_def ScopeDevice_real_def
      example_env_def example_device_def example_model_def example_interface_def
      example_defs_def needsFirmware_def isConnected_def isDemoDevice_def
      claimInterface_def endpoint_step_def emit_def readUSBdescriptor_def trimmed_def
      is_space_def libUsbErrorString_def LIBUSB_SUCCESS_def LIBUSB_CLASS_VENDOR_SPEC_def
      ScopeDevice_inv_def first_vendor_interface_def vendor_specific_def Let_def)

subsection \<open>The division in the bulk mode\<close>

lemma endpoint_step_frame:
  "bEndpointAddress e \<noteq> HANTEK_EP_IN defs \<Longrightarrow>
   inPacketLength (endpoint_step defs s e) = inPacketLength s"
  by (simp add: endpoint_step_def)

lemma endpoints_without_in:
  "\<forall>e\<in>set es. bEndpointAddress e \<noteq> HANTEK_EP_IN defs \<Longrightarrow>
   inPacketLength (foldl (endpoint_step defs) s es) = inPacketLength s"
  by (induction es arbitrary: s) (simp_all add: endpoint_step_frame)

lemma claimInterface_without_in:
  assumes ok: "0 \<le> libusb_claim_interface env"
    and none: "\<forall>e\<in>set (endpoint d). bEndpointAddress e \<noteq> HANTEK_EP_IN defs"
  shows "inPacketLength (snd (claimInterface defs env h d s)) = 0"
    and "stopTransfer (snd (claimInterface defs env h d s)) = stopTransfer s"
proof -
  show "inPacketLength (snd (claimInterface defs env h d s)) = 0"
    using ok none by (simp add: claimInterface_def Let_def endpoints_without_in)
  have "stopTransfer (foldl (endpoint_step defs) s' (endpoint d)) = stopTransfer s'" for s'
    by (rule endpoints_frame_gen) simp_all
  then show "stopTransfer (snd (claimInterface defs env h d s)) = stopTransfer s"
    using ok by (simp add: claimInterface_def Let_def emit_def)
qed

text \<open>
  C10. In the bulk mode, on a connected device whose stop flag is not set, the read ends
  in a division by zero when \<open>inPacketLength\<close> is 0, before any transfer, and it never
  does when \<open>inPacketLength\<close> is not 0. A successful claim of an interface that has no
  endpoint at \<open>HANTEK_EP_IN\<close> leaves \<open>inPacketLength\<close> at 0, so that a
  \<open>connectDevice\<close> that claims such an interface succeeds and the next read in the bulk
  mode divides by zero.
\<close>

theorem bulk_mode_division:
  "(handle s \<noteq> None \<and> \<not> disconnected s \<and> \<not> stopTransfer s \<and> inPacketLength s = 0 \<longrightarrow>
      bulkReadMulti defs usb len False rcvd attempts s = Some (Inl DivisionByZero)) \<and>
   (inPacketLength s \<noteq> 0 \<longrightarrow>
      bulkReadMulti defs usb len False rcvd attempts s \<noteq> Some (Inl DivisionByZero)) \<and>
   (0 \<le> libusb_claim_interface env \<and>
    (\<forall>e\<in>set (endpoint d). bEndpointAddress e \<noteq> HANTEK_EP_IN defs) \<longrightarrow>
      fst (claimInterface defs env h d s) = LIBUSB_SUCCESS \<and>
      inPacketLength (snd (claimInterface defs env h d s)) = 0) \<and>
   (\<not> needsFirmware s \<and> \<not> isConnected s \<and> \<not> stopTransfer s \<and>
    device s = Some dev \<and> config_descriptor dev = Some cfg \<and>
    libusb_open env = (LIBUSB_SUCCESS, h) \<and>
    first_vendor_interface (interface cfg) = Some d \<and> 0 \<le> libusb_claim_interface env \<and>
    (\<forall>e\<in>set (endpoint d). bEndpointAddress e \<noteq> HANTEK_EP_IN defs) \<longrightarrow>
      (\<exists>s'. connectDevice defs env msg s = Inr (s', True, msg) \<and> inPacketLength s' = 0 \<and>
            bulkReadMulti defs usb len False rcvd attempts s' = Some (Inl DivisionByZero)))"
proof (intro conjI impI)
  assume "handle s \<noteq> None \<and> \<not> disconnected s \<and> \<not> stopTransfer s \<and> inPacketLength s = 0"
  then show "bulkReadMulti defs usb len False rcvd attempts s = Some (Inl DivisionByZero)"
    by (auto simp: bulkReadMulti_def hasStopped_def)
next
  assume "inPacketLength s \<noteq> 0"
  then show "bulkReadMulti defs usb len False rcvd attempts s \<noteq> Some (Inl DivisionByZero)"
    by (auto simp: bulkReadMulti_def split: Option.bind_splits)
next
  assume a: "0 \<le> libusb_claim_interface env \<and>
    (\<forall>e\<in>set (endpoint d). bEndpointAddress e \<noteq> HANTEK_EP_IN defs)"
  then show "fst (claimInterface defs env h d s) = LIBUSB_SUCCESS"
    by (simp add: claimInterface_def Let_def)
  from a show "inPacketLength (snd (claimInterface defs env h d s)) = 0"
    by (simp add: claimInterface_without_in)
next
  assume a: "\<not> needsFirmware s \<and> \<not> isConnected s \<and> \<not> stopTransfer s \<and>
    device s = Some dev \<and> config_descriptor dev = Some cfg \<and>
    libusb_open env = (LIBUSB_SUCCESS, h) \<and>
    first_vendor_interface (interface cfg) = Some d \<and> 0 \<le> libusb_claim_interface env \<and>
    (\<forall>e\<in>set (endpoint d). bEndpointAddress e \<noteq> HANTEK_EP_IN defs)"
  then have ok: "0 \<le> libusb_claim_interface env"
    and none: "\<forall>e\<in>set (endpoint d). bEndpointAddress e \<noteq> HANTEK_EP_IN defs"
    by simp_all
  let ?s1 = "(emit (Open h) s)\<lparr>handle := Some h, serialNumber := readUSBdescriptor env\<rparr>"
  obtain e2 s2 where c: "claimInterface defs env h d ?s1 = (e2, s2)"
    by (cases "claimInterface defs env h d ?s1")
  note cc = claimInterface_claimed [OF ok, of defs h d ?s1, unfolded c fst_conv snd_conv]
  note ci = claimInterface_without_in [OF ok none, of h ?s1, unfolded c snd_conv]
  have s2: "e2 = LIBUSB_SUCCESS" "handle s2 = Some h" "inPacketLength s2 = 0"
    "\<not> stopTransfer s2"
    using cc ci a by (simp_all add: emit_def)
  from a have "connectDevice defs env msg s = Inr (s2\<lparr>disconnected := False\<rparr>, True, msg)"
    by (simp add: connectDevice_def find_interface_first c s2(1))
  moreover have "bulkReadMulti defs usb len False rcvd attempts (s2\<lparr>disconnected := False\<rparr>) =
      Some (Inl DivisionByZero)"
    using s2 by (simp add: bulkReadMulti_def hasStopped_def)
  ultimately show "\<exists>s'. connectDevice defs env msg s = Inr (s', True, msg) \<and>
      inPacketLength s' = 0 \<and>
      bulkReadMulti defs usb len False rcvd attempts s' = Some (Inl DivisionByZero)"
    using s2(3) by simp
qed

theorem bulk_mode_division_witness:
  "bulkReadMulti example_defs (\<lambda>k. reply_bytes 1024) 1024 False 0 1
     (connected_scope\<lparr>inPacketLength := 0\<rparr>) = Some (Inl DivisionByZero) \<and>
   bulkReadMulti example_defs (\<lambda>k. reply_bytes 1024) 1024 False 0 1 connected_scope
     \<noteq> Some (Inl DivisionByZero) \<and>
   (case connectDevice example_defs example_env ([], [])
           (ScopeDevice_real False example_model example_device_no_in 0) of
      Inl f \<Rightarrow> None
    | Inr (s', ok, m) \<Rightarrow>
        if ok then bulkReadMulti example_defs (\<lambda>k. reply_bytes 1024) 1024 False 0 1 s'
        else None) = Some (Inl DivisionByZero)"
proof -
  have hyps: "\<not> needsFirmware (ScopeDevice_real False example_model example_device_no_in 0)"
    "\<not> isConnected (ScopeDevice_real False example_model example_device_no_in 0)"
    "\<not> stopTransfer (ScopeDevice_real False example_model example_device_no_in 0)"
    "device (ScopeDevice_real False example_model example_device_no_in 0) =
       Some example_device_no_in"
    "config_descriptor example_device_no_in =
       Some \<lparr>interface = [\<lparr>altsetting = [example_interface_no_in]\<rparr>]\<rparr>"
    "libusb_open example_env = (LIBUSB_SUCCESS, 1)"
    "first_vendor_interface [\<lparr>altsetting = [example_interface_no_in]\<rparr>] =
       Some example_interface_no_in"
    "0 \<le> libusb_claim_interface example_env"
    "\<forall>e\<in>set (endpoint example_interface_no_in).
       bEndpointAddress e \<noteq> HANTEK_EP_IN example_defs"
    by (simp_all add: ScopeDevice_real_def example_env_def
      example_interface_no_in_def example_interface_def example_defs_def
      example_device_no_in_def example_device_def example_model_def
      needsFirmware_def isConnected_def isDemoDevice_def first_vendor_interface_def
      vendor_specific_def LIBUSB_CLASS_VENDOR_SPEC_def LIBUSB_SUCCESS_def)
  have conn: "handle (connected_scope\<lparr>inPacketLength := 0\<rparr>) \<noteq> None"
    "\<not> disconnected (connected_scope\<lparr>inPacketLength := 0\<rparr>)"
    "\<not> stopTransfer (connected_scope\<lparr>inPacketLength := 0\<rparr>)"
    "inPacketLength (connected_scope\<lparr>inPacketLength := 0\<rparr>) = 0"
    "inPacketLength connected_scope \<noteq> 0"
    by (simp_all add: connected_scope_def example_scope_def ScopeDevice_real_def)
  from bulk_mode_division [where s = "connected_scope\<lparr>inPacketLength := 0\<rparr>"
      and defs = example_defs and usb = "\<lambda>k. reply_bytes 1024" and len = 1024
      and rcvd = 0 and attempts = 1] conn
  have one: "bulkReadMulti example_defs (\<lambda>k. reply_bytes 1024) 1024 False 0 1
     (connected_scope\<lparr>inPacketLength := 0\<rparr>) = Some (Inl DivisionByZero)"
    by blast
  from bulk_mode_division [where s = connected_scope
      and defs = example_defs and usb = "\<lambda>k. reply_bytes 1024" and len = 1024
      and rcvd = 0 and attempts = 1] conn
  have two: "bulkReadMulti example_defs (\<lambda>k. reply_bytes 1024) 1024 False 0 1 connected_scope
     \<noteq> Some (Inl DivisionByZero)"
    by blast
  from bulk_mode_division [where s = "ScopeDevice_real False example_model example_device_no_in 0"
      and defs = example_defs and usb = "\<lambda>k. reply_bytes 1024" and len = 1024
      and rcvd = 0 and attempts = 1 and env = example_env and h = 1
      and d = example_interface_no_in and dev = example_device_no_in
      and cfg = "\<lparr>interface = [\<lparr>altsetting = [example_interface_no_in]\<rparr>]\<rparr>"
      and msg = "([], [])"] hyps
  obtain s' where "connectDevice example_defs example_env ([], [])
           (ScopeDevice_real False example_model example_device_no_in 0) =
           Inr (s', True, ([], []))"
    "bulkReadMulti example_defs (\<lambda>k. reply_bytes 1024) 1024 False 0 1 s' =
       Some (Inl DivisionByZero)"
    by auto
  then have "(case connectDevice example_defs example_env ([], [])
           (ScopeDevice_real False example_model example_device_no_in 0) of
      Inl f \<Rightarrow> None
    | Inr (s', ok, m) \<Rightarrow>
        if ok then bulkReadMulti example_defs (\<lambda>k. reply_bytes 1024) 1024 False 0 1 s'
        else None) = Some (Inl DivisionByZero)"
    by simp
  with one two show ?thesis by blast
qed

subsection \<open>computeUSBdeviceID\<close>

lemma fits_bit:
  fixes q :: "'a::len word"
  shows "take_bit k q = q \<Longrightarrow> bit q n \<Longrightarrow> n < k"
  by (metis bit_take_bit_iff)

lemma app_take:
  fixes w q :: "64 word"
  assumes "take_bit k q = q"
  shows "take_bit k (push_bit k w OR q) = q"
proof (rule bit_eqI)
  fix n
  note qk = fits_bit [OF assms]
  show "bit (take_bit k (push_bit k w OR q)) n = bit q n"
    by (auto simp: bit_simps dest: qk)
qed

lemma app_drop:
  fixes w q :: "64 word"
  assumes "take_bit m w = w" "take_bit k q = q" "m + k \<le> 64"
  shows "drop_bit k (push_bit k w OR q) = w"
proof (rule bit_eqI)
  fix n
  note wm = fits_bit [OF assms(1)]
  note qk = fits_bit [OF assms(2)]
  show "bit (drop_bit k (push_bit k w OR q)) n = bit w n"
  proof (cases "bit w n")
    case True
    with wm have "n < m" by blast
    with assms(3) have "k + n < 64" by simp
    with True show ?thesis by (simp add: bit_simps)
  next
    case False
    have "\<not> bit q (k + n)"
      using qk [of "k + n"] by auto
    with False show ?thesis by (simp add: bit_simps)
  qed
qed

lemma app_fits:
  fixes w q :: "64 word"
  assumes "take_bit m w = w" "take_bit k q = q"
  shows "take_bit (m + k) (push_bit k w OR q) = push_bit k w OR q"
proof (rule bit_eqI)
  fix n
  note wm = fits_bit [OF assms(1)]
  note qk = fits_bit [OF assms(2)]
  show "bit (take_bit (m + k) (push_bit k w OR q)) n = bit (push_bit k w OR q) n"
  proof (cases "n < m + k")
    case True
    then show ?thesis by (simp add: bit_simps)
  next
    case False
    then have "\<not> n - k < m" "\<not> n < k" by simp_all
    with wm [of "n - k"] qk [of n] have "\<not> bit w (n - k)" "\<not> bit q n" by blast+
    with False show ?thesis by (simp add: bit_simps)
  qed
qed

lemma nibble_fits:
  fixes p :: "8 word"
  shows "take_bit 4 (ucast (p AND 0x0F) :: 64 word) = ucast (p AND 0x0F)"
proof -
  have "p AND 0x0F = take_bit 4 p"
    by (simp add: take_bit_eq_mask mask_eq_exp_minus_1)
  then show ?thesis
    by (simp add: unsigned_take_bit_eq)
qed

lemma ucast16_fits:
  fixes v :: "16 word"
  shows "take_bit 16 (ucast v :: 64 word) = ucast v"
  by (rule bit_eqI) (auto simp: bit_simps dest: bit_imp_le_length)


lemma low_nibble: "p < 16 \<Longrightarrow> p AND 0x0F = p" for p :: "8 word"
  using less_mask_eq [of p 4] by (simp add: mask_eq_exp_minus_1)

lemma port_loop_nibbles:
  "foldl (port_step nPorts ports) uid [0..<n] =
   pack_nibbles uid (map (\<lambda>i. if int i < nPorts then ports ! i AND 0x0F else 0) [0..<n])"
  by (induction n) (simp_all add: pack_nibbles_def port_step_def Let_def)

lemma computeUSBdeviceID_packed:
  "computeUSBdeviceID dev =
     push_bit 16
       (push_bit 16 (pack_nibbles (ucast (bus_number dev AND 0x0F)) (port_nibbles dev))
          OR ucast (idVendor (device_descriptor dev)))
       OR ucast (bcdDevice (device_descriptor dev))"
  by (simp add: computeUSBdeviceID_def Let_def port_loop_nibbles port_nibbles_def)

lemma pack_nibbles_fits:
  assumes "take_bit m u = u" and "\<forall>p\<in>set ps. take_bit 4 (ucast p :: 64 word) = ucast p"
  shows "take_bit (m + 4 * length ps) (pack_nibbles u ps) = pack_nibbles u ps"
  using assms
proof (induction ps arbitrary: u m)
  case Nil
  then show ?case by (simp add: pack_nibbles_def)
next
  case (Cons p ps)
  have p: "take_bit 4 (ucast p :: 64 word) = ucast p"
    using Cons.prems(2) by simp
  have rest: "\<forall>p\<in>set ps. take_bit 4 (ucast p :: 64 word) = ucast p"
    using Cons.prems(2) by simp
  from Cons.IH [OF app_fits [OF Cons.prems(1) p] rest] show ?case
    by (simp add: pack_nibbles_def add.assoc)
qed

lemma ucast_nibble_inj:
  fixes x y :: "8 word"
  assumes "(ucast x :: 64 word) = ucast y"
  shows "x = y"
proof -
  have "(ucast (ucast x :: 64 word) :: 8 word) = ucast (ucast y :: 64 word)"
    using assms by simp
  then show ?thesis
    by (simp add: ucast_up_ucast_id is_up)
qed

lemma pack_nibbles_inj:
  assumes "length ps = length qs"
    and "take_bit m u = u" "take_bit m v = v"
    and "\<forall>p\<in>set ps. take_bit 4 (ucast p :: 64 word) = ucast p"
    and "\<forall>p\<in>set qs. take_bit 4 (ucast p :: 64 word) = ucast p"
    and "m + 4 * length ps \<le> 64"
    and "pack_nibbles u ps = pack_nibbles v qs"
  shows "u = v \<and> ps = qs"
  using assms
proof (induction ps qs arbitrary: u v m rule: list_induct2)
  case Nil
  then show ?case by (simp add: pack_nibbles_def)
next
  case (Cons p ps q qs)
  let ?u = "push_bit 4 u OR ucast p" and ?v = "push_bit 4 v OR ucast q"
  have p: "take_bit 4 (ucast p :: 64 word) = ucast p"
    and q: "take_bit 4 (ucast q :: 64 word) = ucast q"
    using Cons.prems(3,4) by simp_all
  have fu: "take_bit (m + 4) ?u = ?u" and fv: "take_bit (m + 4) ?v = ?v"
    by (rule app_fits [OF Cons.prems(1) p], rule app_fits [OF Cons.prems(2) q])
  have rest: "\<forall>p\<in>set ps. take_bit 4 (ucast p :: 64 word) = ucast p"
    "\<forall>p\<in>set qs. take_bit 4 (ucast p :: 64 word) = ucast p"
    using Cons.prems(3,4) by simp_all
  have room: "(m + 4) + 4 * length ps \<le> 64" and room1: "m + 4 \<le> 64"
    using Cons.prems(5) by simp_all
  have eq: "pack_nibbles ?u ps = pack_nibbles ?v qs"
    using Cons.prems(6) by (simp add: pack_nibbles_def)
  from Cons.IH [OF fu fv rest room eq] have uv: "?u = ?v" and tl: "ps = qs"
    by simp_all
  from uv have "drop_bit 4 ?u = drop_bit 4 ?v" by simp
  then have "u = v"
    by (simp only: app_drop [OF Cons.prems(1) p room1] app_drop [OF Cons.prems(2) q room1])
  moreover from uv have "take_bit 4 ?u = take_bit 4 ?v" by simp
  then have "(ucast p :: 64 word) = ucast q"
    by (simp only: app_take [OF p] app_take [OF q])
  then have "p = q" by (rule ucast_nibble_inj)
  ultimately show ?case using tl by simp
qed


lemma port_nibbles_fit:
  "\<forall>p\<in>set (port_nibbles dev). take_bit 4 (ucast p :: 64 word) = ucast p"
proof
  fix p assume "p \<in> set (port_nibbles dev)"
  then have "(\<exists>q. p = q AND 0x0F) \<or> p = 0"
    by (auto simp: port_nibbles_def)
  then show "take_bit 4 (ucast p :: 64 word) = ucast p"
    using nibble_fits by auto
qed

lemma length_port_nibbles: "length (port_nibbles dev) = 7"
  by (simp add: port_nibbles_def treeSize_def)

lemma port_nibbles_nth:
  assumes "valid_topology dev" "i < 7"
  shows "port_nibbles dev ! i =
         (if i < length (port_numbers dev) then port_numbers dev ! i else 0)"
proof -
  have len: "length (port_numbers dev) \<le> 7"
    using assms(1) by (simp add: valid_topology_def)
  have "port_numbers dev ! i AND 0x0F = port_numbers dev ! i" if "i < length (port_numbers dev)"
  proof -
    from that have "port_numbers dev ! i \<in> set (port_numbers dev)" by simp
    with assms(1) have "port_numbers dev ! i < 16" by (simp add: valid_topology_def)
    then show ?thesis by (rule low_nibble)
  qed
  then show ?thesis
    using assms(2) len
    by (simp add: port_nibbles_def treeSize_def libusb_get_port_numbers_def)
qed

lemma port_nibbles_inj:
  assumes v1: "valid_topology d1" and v2: "valid_topology d2"
    and eq: "port_nibbles d1 = port_nibbles d2"
  shows "port_numbers d1 = port_numbers d2"
proof -
  let ?p1 = "port_numbers d1" and ?p2 = "port_numbers d2"
  have nz: "?p1 ! i \<noteq> 0" if "i < length ?p1" for i
    using v1 that by (auto simp: valid_topology_def)
  have nz2: "?p2 ! i \<noteq> 0" if "i < length ?p2" for i
    using v2 that by (auto simp: valid_topology_def)
  have l1: "length ?p1 \<le> 7" and l2: "length ?p2 \<le> 7"
    using v1 v2 by (simp_all add: valid_topology_def)
  have nth: "(if i < length ?p1 then ?p1 ! i else 0) = (if i < length ?p2 then ?p2 ! i else 0)"
    if "i < 7" for i
    using port_nibbles_nth [OF v1 that] port_nibbles_nth [OF v2 that] eq by simp
  have len: "length ?p1 = length ?p2"
  proof (rule ccontr)
    assume "length ?p1 \<noteq> length ?p2"
    then consider "length ?p1 < length ?p2" | "length ?p2 < length ?p1"
      by linarith
    then show False
    proof cases
      case 1
      with l2 have "length ?p1 < 7" by simp
      from nth [OF this] 1 nz2 [OF 1] show False by simp
    next
      case 2
      with l1 have "length ?p2 < 7" by simp
      from nth [OF this] 2 nz [OF 2] show False by simp
    qed
  qed
  show ?thesis
  proof (rule nth_equalityI [OF len])
    fix i assume i: "i < length ?p1"
    with l1 have "i < 7" by simp
    from nth [OF this] i len show "?p1 ! i = ?p2 ! i" by simp
  qed
qed

text \<open>
  C7, as amended. Two devices with the same vendor ID and firmware version whose bus
  numbers are below 16 and whose port paths have at most seven ports, each from 1 to 15,
  get different identifiers when they differ in the bus number or in the port path.
\<close>

theorem computeUSBdeviceID_distinct:
  assumes v1: "valid_topology d1" and v2: "valid_topology d2"
    and vendor: "idVendor (device_descriptor d1) = idVendor (device_descriptor d2)"
    and firmware: "bcdDevice (device_descriptor d1) = bcdDevice (device_descriptor d2)"
    and differ: "bus_number d1 \<noteq> bus_number d2 \<or> port_numbers d1 \<noteq> port_numbers d2"
  shows "computeUSBdeviceID d1 \<noteq> computeUSBdeviceID d2"
proof
  assume same: "computeUSBdeviceID d1 = computeUSBdeviceID d2"
  let ?b1 = "ucast (bus_number d1 AND 0x0F) :: 64 word"
  let ?b2 = "ucast (bus_number d2 AND 0x0F) :: 64 word"
  let ?t1 = "pack_nibbles ?b1 (port_nibbles d1)" and ?t2 = "pack_nibbles ?b2 (port_nibbles d2)"
  let ?v = "ucast (idVendor (device_descriptor d2)) :: 64 word"
  let ?f = "ucast (bcdDevice (device_descriptor d2)) :: 64 word"
  have t1: "take_bit (4 + 4 * length (port_nibbles d1)) ?t1 = ?t1"
    by (rule pack_nibbles_fits [OF nibble_fits port_nibbles_fit])
  have t2: "take_bit (4 + 4 * length (port_nibbles d2)) ?t2 = ?t2"
    by (rule pack_nibbles_fits [OF nibble_fits port_nibbles_fit])
  from t1 t2 have t32: "take_bit 32 ?t1 = ?t1" "take_bit 32 ?t2 = ?t2"
    by (simp_all add: length_port_nibbles)
  have v48: "take_bit (32 + 16) (push_bit 16 ?t1 OR ?v) = push_bit 16 ?t1 OR ?v"
       "take_bit (32 + 16) (push_bit 16 ?t2 OR ?v) = push_bit 16 ?t2 OR ?v"
    by (rule app_fits [OF t32(1) ucast16_fits], rule app_fits [OF t32(2) ucast16_fits])
  from same have "push_bit 16 (push_bit 16 ?t1 OR ?v) OR ?f =
                  push_bit 16 (push_bit 16 ?t2 OR ?v) OR ?f"
    by (simp add: computeUSBdeviceID_packed vendor firmware)
  then have "drop_bit 16 (push_bit 16 (push_bit 16 ?t1 OR ?v) OR ?f) =
             drop_bit 16 (push_bit 16 (push_bit 16 ?t2 OR ?v) OR ?f)"
    by simp
  then have "push_bit 16 ?t1 OR ?v = push_bit 16 ?t2 OR ?v"
    by (simp only: app_drop [OF v48(1) ucast16_fits] app_drop [OF v48(2) ucast16_fits])
  then have "drop_bit 16 (push_bit 16 ?t1 OR ?v) = drop_bit 16 (push_bit 16 ?t2 OR ?v)"
    by simp
  then have tree: "?t1 = ?t2"
    by (simp only: app_drop [OF t32(1) ucast16_fits] app_drop [OF t32(2) ucast16_fits])
  have len: "length (port_nibbles d1) = length (port_nibbles d2)"
    by (simp add: length_port_nibbles)
  have room: "4 + 4 * length (port_nibbles d1) \<le> 64"
    by (simp add: length_port_nibbles)
  from pack_nibbles_inj [OF len nibble_fits nibble_fits port_nibbles_fit port_nibbles_fit
      room tree]
  have bus: "?b1 = ?b2" and ports: "port_nibbles d1 = port_nibbles d2"
    by simp_all
  from bus have "bus_number d1 AND 0x0F = bus_number d2 AND 0x0F"
    by (rule ucast_nibble_inj)
  moreover have "bus_number d1 < 16" "bus_number d2 < 16"
    using v1 v2 by (simp_all add: valid_topology_def)
  ultimately have "bus_number d1 = bus_number d2"
    by (simp add: low_nibble)
  moreover have "port_numbers d1 = port_numbers d2"
    by (rule port_nibbles_inj [OF v1 v2 ports])
  ultimately show False
    using differ by simp
qed

theorem computeUSBdeviceID_distinct_witness:
  "computeUSBdeviceID example_device \<noteq>
     computeUSBdeviceID (example_device\<lparr>port_numbers := [2, 1]\<rparr>) \<and>
   computeUSBdeviceID example_device \<noteq>
     computeUSBdeviceID (example_device\<lparr>bus_number := 3\<rparr>)"
  using computeUSBdeviceID_distinct [of example_device "example_device\<lparr>port_numbers := [2, 1]\<rparr>"]
    computeUSBdeviceID_distinct [of example_device "example_device\<lparr>bus_number := 3\<rparr>"]
  by (simp add: valid_topology_def example_device_def)

text \<open>
  C7 as stated fails: only the low nibble of the bus number enters the identifier, so the
  same device at the same ports on bus 17 and on bus 1 gets the same identifier.
\<close>

theorem computeUSBdeviceID_collision:
  "bus_number (example_device\<lparr>bus_number := 17\<rparr>) \<noteq> bus_number example_device \<and>
   computeUSBdeviceID (example_device\<lparr>bus_number := 17\<rparr>) = computeUSBdeviceID example_device"
  by (simp add: computeUSBdeviceID_def example_device_def treeSize_def port_step_def
      libusb_get_port_numbers_def Let_def upt_rec)

end
